theory Spec2Isabelle
  imports Main "HOL-Library.Multiset" "HOL-Library.Sublist"
begin

section \<open>Values shared by the extractor and the patch applier\<close>

text \<open>
  Texts are JavaScript strings. They are modelled as lists of code units restricted to
  ASCII, one \<open>char\<close> per code unit, so \<open>length\<close> is the string's \<open>.length\<close>.
  Offsets are JavaScript numbers holding integers; they are modelled as \<open>int\<close>, so a
  negative offset is a value of the model.

  A property of a JavaScript object may be absent or \<open>null\<close>. A property that the
  source reads as a string is a \<open>jsval\<close>.
\<close>

datatype jsval = Undefined | Null | Str string

text \<open>String conversion of a value inside a template literal or a concatenation.\<close>

fun js_string_of :: "jsval \<Rightarrow> string" where
  "js_string_of Undefined = ''undefined''"
| "js_string_of Null = ''null''"
| "js_string_of (Str s) = s"

text \<open>
  A change object. The source's property names \<open>type\<close>, \<open>text\<close>, \<open>end\<close> and
  \<open>notes\<close> are reserved words of the theory language, so the fields are \<open>ctype\<close>,
  \<open>ctext\<close>, \<open>start\<close>, \<open>end'\<close> and \<open>cnotes\<close>.
\<close>

record change =
  ctype :: jsval
  ctext :: jsval
  start :: int
  end' :: int
  cnotes :: jsval

text \<open>
  The two ways the modelled code throws: the \<open>Error\<close> of \<open>replaceSubstring\<close>, whose
  message is \<open>Invalid indices provided: (start, end)\<close> and which carries the two offsets,
  and the \<open>TypeError\<close> of a property read or method call on \<open>undefined\<close> or \<open>null\<close>.
\<close>

datatype error = InvalidIndices int int | TypeError

section \<open>utils.js\<close>

definition DEBUG :: bool where
  "DEBUG = True"

text \<open>\<open>DEFAULT_LOCALE\<close> is \<open>LOCALES.en\<close>, the string \<open>en-US\<close>.\<close>

definition DEFAULT_LOCALE :: string where
  "DEFAULT_LOCALE = ''en-US''"

definition createPlaceholder :: "string \<Rightarrow> string" where
  "createPlaceholder v = ''%%'' @ v @ ''%%''"

text \<open>\<open>locale.slice(0, 2)\<close>.\<close>

definition shortLocale :: "string \<Rightarrow> string" where
  "shortLocale locale = take 2 locale"

text \<open>\<open>str.replace(/\n$/, "")\<close>: one line feed at the very end of the string is removed.\<close>

definition chomp :: "string \<Rightarrow> string" where
  "chomp str = (if str \<noteq> [] \<and> last str = CHR 0x0A then butlast str else str)"

text \<open>\<open>s.substring(a, b)\<close>: both indices are clamped to the string and swapped if needed.\<close>

definition substring :: "string \<Rightarrow> int \<Rightarrow> int \<Rightarrow> string" where
  "substring s a b =
     (let n = int (length s);
          a' = min (max a 0) n;
          b' = min (max b 0) n;
          lo = min a' b';
          hi = max a' b'
      in take (nat (hi - lo)) (drop (nat lo) s))"

text \<open>\<open>s.substring(a)\<close>: the second index defaults to the length.\<close>

definition substring_from :: "string \<Rightarrow> int \<Rightarrow> string" where
  "substring_from s a = substring s a (int (length s))"

text \<open>
  \<open>toLocaleUpperCase\<close> on ASCII text: the letters a to z are mapped to A to Z and every
  other character is kept.
\<close>

definition upper_char :: "char \<Rightarrow> char" where
  "upper_char c =
     (case map_of (zip ''abcdefghijklmnopqrstuvwxyz'' ''ABCDEFGHIJKLMNOPQRSTUVWXYZ'') c of
        None \<Rightarrow> c
      | Some u \<Rightarrow> u)"

definition toLocaleUpperCase :: "string \<Rightarrow> string" where
  "toLocaleUpperCase s = map upper_char s"

text \<open>\<open>s.replace(/ /g, "..")\<close>: every space becomes two dots.\<close>

fun replace_spaces :: "string \<Rightarrow> string" where
  "replace_spaces [] = []"
| "replace_spaces (c # cs) =
     (if c = CHR '' '' then ''..'' @ replace_spaces cs else c # replace_spaces cs)"

text \<open>The replacement text that \<open>replaceSubstring\<close> computes when \<open>DEBUG\<close> is on.\<close>

definition debug_text :: "string \<Rightarrow> string" where
  "debug_text t = replace_spaces (toLocaleUpperCase t)"

text \<open>
  \<open>replaceSubstring(original, change)\<close>. The range check comes first and throws. With
  \<open>DEBUG\<close> off the text is concatenated as it is (an absent text is converted to a
  string by the concatenation); with \<open>DEBUG\<close> on a method is called on the text, which
  throws a \<open>TypeError\<close> when the text is absent.
\<close>

definition replaceSubstring :: "string \<Rightarrow> change \<Rightarrow> error + string" where
  "replaceSubstring original c =
     (if start c < 0 \<or> end' c > int (length original) \<or> start c \<ge> end' c
      then Inl (InvalidIndices (start c) (end' c))
      else if \<not> DEBUG
      then Inr (substring original 0 (start c) @ js_string_of (ctext c)
                @ substring_from original (end' c))
      else (case ctext c of
              Str t \<Rightarrow> Inr (substring original 0 (start c) @ debug_text t
                            @ substring_from original (end' c))
            | _ \<Rightarrow> Inl TypeError))"

text \<open>
  \<open>changes.sort((a, b) => b.start - a.start)\<close>: the array is sorted in place by
  descending \<open>start\<close>; the sort is stable, so changes with equal \<open>start\<close> keep their order.
\<close>

definition sort_changes :: "change list \<Rightarrow> change list" where
  "sort_changes changes = sort_key (\<lambda>c. - start c) changes"

text \<open>
  The \<open>forEach\<close> of \<open>applyChanges\<close>: the variable \<open>result\<close> is reassigned after each
  call; a call that throws ends the loop and the function.
\<close>

fun forEach_replace :: "string \<Rightarrow> change list \<Rightarrow> error + string" where
  "forEach_replace result [] = Inr result"
| "forEach_replace result (c # cs) =
     (case replaceSubstring result c of
        Inl e \<Rightarrow> Inl e
      | Inr r \<Rightarrow> forEach_replace r cs)"

text \<open>
  \<open>applyChanges(content, changes)\<close>. The first component is what the call returns or
  throws. The second component is the caller's array after the call: \<open>sort\<close> has
  reordered it in place before the first replacement is tried. The text \<open>content\<close> is an
  immutable string value, so there is no state of it to return.
\<close>

definition applyChanges :: "string \<Rightarrow> change list \<Rightarrow> (error + string) \<times> change list" where
  "applyChanges content changes =
     (let sorted_changes = sort_changes changes
      in (forEach_replace content sorted_changes, sorted_changes))"


section \<open>The positioned tree\<close>

text \<open>
  The tree is the output of the external parser. A node is a JavaScript object with a
  \<open>type\<close> tag and the properties the walker reads: \<open>position\<close> (the start and end
  offsets, absent on a node without a span), \<open>children\<close> (absent on a leaf), \<open>value\<close>,
  \<open>name\<close>, \<open>url\<close>, \<open>attributes\<close>, the truth of \<open>data.directiveLabel\<close>, and the body of
  \<open>data.estree\<close>, which the parser attaches to every \<open>mdxjsEsm\<close> node and which is read
  on no other node. The source's \<open>type\<close> and \<open>value\<close> are reserved words here, so the
  selectors are \<open>ntype\<close> and \<open>nvalue\<close>.

  A statement of an embedded program is an import declaration, whose \<open>source\<close> is a
  literal with its \<open>raw\<close> text and its \<open>start\<close> and \<open>end\<close> offsets, or any other statement.
\<close>

record literal =
  raw :: string
  lit_start :: int
  lit_end :: int

datatype statement = ImportDeclaration (source: literal) | OtherStatement

record attribute =
  attr_name :: jsval
  attr_value :: jsval
  attr_position :: "(int \<times> int) option"

datatype node = Node
  (ntype: string)
  (position: "(int \<times> int) option")
  (children: "node list option")
  (nvalue: jsval)
  (name: jsval)
  (url: "string option")
  (attributes: "attribute list")
  (directiveLabel: bool)
  (estree_body: "statement list")

text \<open>The two in-place writes of the walker: \<open>node.url = ...\<close> and the new child array.\<close>

fun set_url :: "string \<Rightarrow> node \<Rightarrow> node" where
  "set_url u (Node t p c v n _ a d b) = Node t p c v n (Some u) a d b"

fun set_children :: "node list \<Rightarrow> node \<Rightarrow> node" where
  "set_children kids (Node t p _ v n u a d b) = Node t p (Some kids) v n u a d b"

section \<open>upload.js: frontmatter\<close>

text \<open>
  The regular expression \<open>/(title:\s*)(.+)(?:\n|$)/\<close>, matched the way a backtracking
  matcher does. \<open>\s\<close> matches the ASCII white space characters, the dot matches every
  character but a line terminator, and \<open>$\<close> (no multiline flag) matches at the end of the
  input only.
\<close>

definition is_space :: "char \<Rightarrow> bool" where
  "is_space c = (c \<in> set [CHR 0x09, CHR 0x0A, CHR 0x0B, CHR 0x0C, CHR 0x0D, CHR '' ''])"

definition is_line_terminator :: "char \<Rightarrow> bool" where
  "is_line_terminator c = (c = CHR 0x0A \<or> c = CHR 0x0D)"

text \<open>\<open>(?:\n|$)\<close> at the head of the rest of the input.\<close>

fun match_end :: "string \<Rightarrow> bool" where
  "match_end [] = True"
| "match_end (c # cs) = (c = CHR 0x0A)"

text \<open>
  \<open>(.+)\<close> followed by \<open>(?:\n|$)\<close>: the dot is greedy, so the longest run is tried first
  and given back one character at a time; \<open>m\<close> is the number of characters taken.
\<close>

fun match_dots :: "string \<Rightarrow> nat \<Rightarrow> string option" where
  "match_dots s 0 = None"
| "match_dots s (Suc m) =
     (if match_end (drop (Suc m) s) then Some (take (Suc m) s) else match_dots s m)"

text \<open>
  \<open>\s*\<close> followed by the rest of the pattern: \<open>k\<close> white space characters are taken,
  the longest run first. The result is the white space taken and the second group.
\<close>

fun match_spaces :: "string \<Rightarrow> nat \<Rightarrow> (string \<times> string) option" where
  "match_spaces s 0 =
     (case match_dots s (length (takeWhile (\<lambda>c. \<not> is_line_terminator c) s)) of
        Some v \<Rightarrow> Some ([], v)
      | None \<Rightarrow> None)"
| "match_spaces s (Suc k) =
     (case match_dots (drop (Suc k) s)
             (length (takeWhile (\<lambda>c. \<not> is_line_terminator c) (drop (Suc k) s))) of
        Some v \<Rightarrow> Some (take (Suc k) s, v)
      | None \<Rightarrow> match_spaces s k)"

text \<open>A match that starts at the head of \<open>s\<close>: the two groups.\<close>

definition match_at :: "string \<Rightarrow> (string \<times> string) option" where
  "match_at s =
     (if take 6 s = ''title:''
      then (case match_spaces (drop 6 s) (length (takeWhile is_space (drop 6 s))) of
              Some (sp, v) \<Rightarrow> Some (''title:'' @ sp, v)
            | None \<Rightarrow> None)
      else None)"

text \<open>\<open>regex.exec\<close>: the leftmost match, as \<open>match.index\<close>, \<open>match[1]\<close> and \<open>match[2]\<close>.\<close>

fun regex_exec_from :: "nat \<Rightarrow> string \<Rightarrow> (nat \<times> string \<times> string) option" where
  "regex_exec_from i [] = None"
| "regex_exec_from i (c # cs) =
     (case match_at (c # cs) of
        Some (g1, g2) \<Rightarrow> Some (i, g1, g2)
      | None \<Rightarrow> regex_exec_from (Suc i) cs)"

definition regex_exec :: "string \<Rightarrow> (nat \<times> string \<times> string) option" where
  "regex_exec s = regex_exec_from 0 s"

definition parseFrontmatter :: "node \<Rightarrow> error + change list" where
  "parseFrontmatter ast =
     (case children ast of
        None \<Rightarrow> Inl TypeError
      | Some kids \<Rightarrow>
          (case find (\<lambda>node. ntype node = ''yaml'') kids of
             None \<Rightarrow> Inr []
           | Some frontmatter \<Rightarrow>
               (case regex_exec (js_string_of (nvalue frontmatter)) of
                  None \<Rightarrow> Inr []
                | Some (index, g1, title) \<Rightarrow>
                    (let divider = ''---'' @ [CHR 0x0A];
                         startOffset = int (length divider) + int index + int (length g1);
                         endOffset = startOffset + int (length title)
                     in case position frontmatter of
                          None \<Rightarrow> Inl TypeError
                        | Some (s, e) \<Rightarrow>
                            Inr [\<lparr>ctype = Str ''title'',
                                  ctext = Str title,
                                  start = s + startOffset,
                                  end' = s + endOffset,
                                  cnotes = Str ''title for document''\<rparr>]))))"

section \<open>upload.js: imports\<close>

text \<open>
  \<open>s.replace(pat, rep)\<close> with a string pattern: the first occurrence of \<open>pat\<close> is
  replaced. (The replacement used here contains no dollar sign, so it is inserted as
  it is.)
\<close>

fun replace_first :: "string \<Rightarrow> string \<Rightarrow> string \<Rightarrow> string" where
  "replace_first pat rep [] = (if pat = [] then rep else [])"
| "replace_first pat rep (c # cs) =
     (if take (length pat) (c # cs) = pat then rep @ drop (length pat) (c # cs)
      else c # replace_first pat rep cs)"

definition localizeUrl :: "string \<Rightarrow> string" where
  "localizeUrl u =
     (let placeholder = createPlaceholder ''locale'';
          locale = shortLocale DEFAULT_LOCALE
      in replace_first (''/'' @ locale) (''/'' @ placeholder) u)"

text \<open>
  The callback of \<open>node.data.estree.body.map\<close> in \<open>parseImports\<close>: a change, or
  \<open>null\<close> or \<open>undefined\<close> (both are \<open>None\<close>; the later \<open>filter\<close> drops them alike).
\<close>

definition import_change :: "statement \<Rightarrow> change option" where
  "import_change child =
     (case child of
        ImportDeclaration src \<Rightarrow>
          (let original = raw src; localized = localizeUrl original
           in if original = localized then None
              else Some \<lparr>ctype = Str ''Import'', ctext = Str localized,
                         start = lit_start src, end' = lit_end src, cnotes = Undefined\<rparr>)
      | OtherStatement \<Rightarrow> None)"

definition parseImports :: "node \<Rightarrow> error + change list" where
  "parseImports ast =
     (case children ast of
        None \<Rightarrow> Inl TypeError
      | Some kids \<Rightarrow>
          Inr (List.map_filter (\<lambda>x. x)
                 (concat (map (\<lambda>node. map import_change (estree_body node))
                            (filter (\<lambda>node. ntype node = ''mdxjsEsm'') kids)))))"

section \<open>upload.js: content\<close>

definition TOP_LEVEL_NODE_TYPES :: "string list" where
  "TOP_LEVEL_NODE_TYPES =
     [''containerDirective'', ''heading'', ''image'', ''list'', ''mdxJsxFlowElement'',
      ''paragraph'', ''table'']"

text \<open>
  \<open>parseAttribute(name, node, changes)\<close>: the changes after the call. The attribute found
  has the name asked for, so \<open>attribute.name.length\<close> is the length of that name.
\<close>

definition parseAttribute :: "string \<Rightarrow> node \<Rightarrow> change list \<Rightarrow> error + change list" where
  "parseAttribute nm node changes =
     (case find (\<lambda>attr. attr_name attr = Str nm) (attributes node) of
        Some attribute \<Rightarrow>
          (case attr_position attribute of
             None \<Rightarrow> Inl TypeError
           | Some (s, e) \<Rightarrow>
               Inr (changes @
                 [\<lparr>ctype = Undefined,
                   ctext = attr_value attribute,
                   start = s + int (length (js_string_of (attr_name attribute))) + 1,
                   end' = e - 1,
                   cnotes = Str ([CHR 0x27] @ nm @ [CHR 0x27] @ '' attribute for ''
                                 @ js_string_of (name node))\<rparr>]))
      | None \<Rightarrow> Inr changes)"

text \<open>
  \<open>node.children[0].position.start.offset\<close> and
  \<open>node.children.slice(-1)[0].position.end.offset\<close>: both throw on an empty array and on
  a child without a position.
\<close>

definition children_span :: "node list \<Rightarrow> error + (int \<times> int)" where
  "children_span kids =
     (case kids of
        [] \<Rightarrow> Inl TypeError
      | first # _ \<Rightarrow>
          (case position first of
             None \<Rightarrow> Inl TypeError
           | Some (s, _) \<Rightarrow>
               (case position (last kids) of
                  None \<Rightarrow> Inl TypeError
                | Some (_, e) \<Rightarrow> Inr (s, e))))"

text \<open>The \<open>changes.push\<close> of a heading, paragraph or table cell walked as a root.\<close>

definition block_change :: "node \<Rightarrow> jsval \<Rightarrow> change list \<Rightarrow> error + (node \<times> change list)" where
  "block_change node tx changes =
     (case children node of
        None \<Rightarrow> Inl TypeError
      | Some kids \<Rightarrow>
          (case children_span kids of
             Inl e \<Rightarrow> Inl e
           | Inr (s, e) \<Rightarrow>
               Inr (node, changes @
                 [\<lparr>ctype = Undefined, ctext = tx, start = s, end' = e, cnotes = Str ''''\<rparr>])))"

text \<open>The change pushed for the label of a directive; \<open>first\<close> is the label child.\<close>

definition directive_label_change :: "node \<Rightarrow> node \<Rightarrow> error + change" where
  "directive_label_change node first =
     (case children first of
        None \<Rightarrow> Inl TypeError
      | Some [] \<Rightarrow> Inl TypeError
      | Some (label # _) \<Rightarrow>
          (case position first of
             None \<Rightarrow> Inl TypeError
           | Some (s, e) \<Rightarrow>
               Inr \<lparr>ctype = Str ''containerDirectiveLabel'',
                    ctext = nvalue label,
                    start = s + 1,
                    end' = e - 1,
                    cnotes = Str (''title for the '' @ [CHR 0x22] @ js_string_of (name node)
                                  @ [CHR 0x22] @ '' callout'')\<rparr>))"

text \<open>The last \<open>changes.push\<close> of a directive, after its children have been walked.\<close>

definition directive_content_change :: "node \<Rightarrow> jsval \<Rightarrow> change list \<Rightarrow> error + (node \<times> change list)" where
  "directive_content_change node tx changes =
     (case children node of
        None \<Rightarrow> Inl TypeError
      | Some kids \<Rightarrow>
          (case children_span kids of
             Inl e \<Rightarrow> Inl e
           | Inr (s, e) \<Rightarrow>
               Inr (node, changes @
                 [\<lparr>ctype = Undefined, ctext = tx, start = s, end' = e,
                   cnotes = Str (''content for the '' @ [CHR 0x22] @ js_string_of (name node)
                                 @ [CHR 0x22] @ '' callout'')\<rparr>])))"

lemma size_children: "children n = Some kids \<Longrightarrow> size_list size kids < size n"
  by (cases n) simp

lemma size_set_children: "size (set_children kids n) = Suc (Suc (size_list size kids))"
  by (cases n) simp

text \<open>
  The tree walk. \<open>processor\<close> stands for \<open>processor.stringify\<close>, the external serializer.
  The source mutates the nodes and the array \<open>changes\<close> in place; each function of the
  model returns the node (or the children) and the changes as they are after the call.
  A \<open>TypeError\<close> thrown anywhere ends the whole walk.

  \<^item> \<open>parseNode(node, changes, processor, root)\<close>;
  \<^item> \<open>parseChildrenAsRoot(node, changes, processor)\<close> and its \<open>forEach\<close>;
  \<^item> \<open>parseChildren(node, changes, processor)\<close>, which returns the accumulated text
    (\<open>undefined\<close> when the node has no children array), and its \<open>for\<close> loop.

  In the directive case \<open>node.children.shift()\<close> removes the label child before
  \<open>parseChildren\<close> runs: the walk continues on the node with the remaining children.
\<close>

function
  parseNode :: "(node \<Rightarrow> string) \<Rightarrow> node \<Rightarrow> change list \<Rightarrow> bool \<Rightarrow> error + (node \<times> change list)" and
  parseChildrenAsRoot :: "(node \<Rightarrow> string) \<Rightarrow> node \<Rightarrow> change list \<Rightarrow> error + (node \<times> change list)" and
  parseChildrenAsRoot_forEach :: "(node \<Rightarrow> string) \<Rightarrow> node list \<Rightarrow> change list \<Rightarrow> error + (node list \<times> change list)" and
  parseChildren :: "(node \<Rightarrow> string) \<Rightarrow> node \<Rightarrow> change list \<Rightarrow> error + (node \<times> change list \<times> jsval)" and
  parseChildren_loop :: "(node \<Rightarrow> string) \<Rightarrow> node list \<Rightarrow> change list \<Rightarrow> string \<Rightarrow> error + (node list \<times> change list \<times> string)"
where
  "parseNode processor node changes root =
     (if ntype node = ''link'' then
        (case url node of
           None \<Rightarrow> Inl TypeError
         | Some u \<Rightarrow> Inr (set_url (localizeUrl u) node, changes))
      else if ntype node = ''mdxJsxFlowElement'' then
        (if name node = Str ''RelativeLink'' then
           (case parseAttribute ''title'' node changes of
              Inl e \<Rightarrow> Inl e
            | Inr changes1 \<Rightarrow> Inr (node, changes1))
         else if name node = Str ''AccordionItem'' then
           (case parseAttribute ''title'' node changes of
              Inl e \<Rightarrow> Inl e
            | Inr changes1 \<Rightarrow> parseChildrenAsRoot processor node changes1)
         else Inr (node, changes))
      else if ntype node = ''image'' then Inr (node, changes)
      else if ntype node = ''list'' \<or> ntype node = ''listItem'' \<or> ntype node = ''table''
              \<or> ntype node = ''tableRow'' then
        parseChildrenAsRoot processor node changes
      else if ntype node = ''heading'' \<or> ntype node = ''paragraph''
              \<or> ntype node = ''tableCell'' then
        (case parseChildren processor node changes of
           Inl e \<Rightarrow> Inl e
         | Inr (node1, changes1, tx) \<Rightarrow>
             if root then block_change node1 tx changes1 else Inr (node1, changes1))
      else if ntype node = ''containerDirective'' then
        (case children node of
           None \<Rightarrow> Inl TypeError
         | Some [] \<Rightarrow> Inl TypeError
         | Some (first # rest) \<Rightarrow>
             if directiveLabel first then
               (case directive_label_change node first of
                  Inl e \<Rightarrow> Inl e
                | Inr label_change \<Rightarrow>
                    (case parseChildren processor (set_children rest node)
                            (changes @ [label_change]) of
                       Inl e \<Rightarrow> Inl e
                     | Inr (node1, changes1, tx) \<Rightarrow>
                         directive_content_change node1 tx changes1))
             else
               (case parseChildren processor node changes of
                  Inl e \<Rightarrow> Inl e
                | Inr (node1, changes1, tx) \<Rightarrow>
                    directive_content_change node1 tx changes1))
      else Inr (node, changes))"
| "parseChildrenAsRoot processor node changes =
     (case children node of
        None \<Rightarrow> Inl TypeError
      | Some kids \<Rightarrow>
          (case parseChildrenAsRoot_forEach processor kids changes of
             Inl e \<Rightarrow> Inl e
           | Inr (kids1, changes1) \<Rightarrow> Inr (set_children kids1 node, changes1)))"
| "parseChildrenAsRoot_forEach processor [] changes = Inr ([], changes)"
| "parseChildrenAsRoot_forEach processor (child # rest) changes =
     (case parseNode processor child changes True of
        Inl e \<Rightarrow> Inl e
      | Inr (child1, changes1) \<Rightarrow>
          (case parseChildrenAsRoot_forEach processor rest changes1 of
             Inl e \<Rightarrow> Inl e
           | Inr (rest1, changes2) \<Rightarrow> Inr (child1 # rest1, changes2)))"
| "parseChildren processor node changes =
     (case children node of
        None \<Rightarrow> Inr (node, changes, Undefined)
      | Some kids \<Rightarrow>
          (case parseChildren_loop processor kids changes [] of
             Inl e \<Rightarrow> Inl e
           | Inr (kids1, changes1, tx) \<Rightarrow> Inr (set_children kids1 node, changes1, Str tx)))"
| "parseChildren_loop processor [] changes tx = Inr ([], changes, tx)"
| "parseChildren_loop processor (child # rest) changes tx =
     (case parseNode processor child changes False of
        Inl e \<Rightarrow> Inl e
      | Inr (child1, changes1) \<Rightarrow>
          (let tx1 = (if ntype child1 = ''code'' then tx @ [CHR 0x0A] else tx);
               tx2 = (if ntype child1 \<noteq> ''list'' then tx1 @ chomp (processor child1) else tx1)
           in case parseChildren_loop processor rest changes1 tx2 of
                Inl e \<Rightarrow> Inl e
              | Inr (rest1, changes2, tx3) \<Rightarrow> Inr (child1 # rest1, changes2, tx3)))"
  by pat_completeness auto
termination
  by (relation "measure (\<lambda>x. case x of
        Inl (Inl (p, n, c, r)) \<Rightarrow> 2 * size n + 1
      | Inl (Inr (p, n, c)) \<Rightarrow> 2 * size n
      | Inr (Inl (p, ns, c)) \<Rightarrow> 2 * size_list size ns
      | Inr (Inr (Inl (p, n, c))) \<Rightarrow> 2 * size n
      | Inr (Inr (Inr (p, ns, c, t))) \<Rightarrow> 2 * size_list size ns)")
     (auto simp: size_set_children dest: size_children)

declare parseNode.simps [simp del] parseChildren.simps [simp del] parseChildrenAsRoot.simps [simp del]

text \<open>\<open>parseContent(ast, processor)\<close>: the loop over the children of the root.\<close>

fun parseContent_loop :: "(node \<Rightarrow> string) \<Rightarrow> node list \<Rightarrow> change list \<Rightarrow> error + change list" where
  "parseContent_loop processor [] changes = Inr changes"
| "parseContent_loop processor (node # rest) changes =
     (if ntype node \<noteq> [] \<and> ntype node \<in> set TOP_LEVEL_NODE_TYPES
      then (case parseNode processor node changes True of
              Inl e \<Rightarrow> Inl e
            | Inr (node1, changes1) \<Rightarrow> parseContent_loop processor rest changes1)
      else parseContent_loop processor rest changes)"

definition parseContent :: "(node \<Rightarrow> string) \<Rightarrow> node \<Rightarrow> error + change list" where
  "parseContent processor ast =
     (case children ast of
        None \<Rightarrow> Inl TypeError
      | Some kids \<Rightarrow> parseContent_loop processor kids [])"

text \<open>
  The list \<open>strings\<close> of \<open>uploadFiles\<close>: the changes of the three extractors, one after
  the other.
\<close>

definition strings :: "(node \<Rightarrow> string) \<Rightarrow> node \<Rightarrow> error + change list" where
  "strings processor ast =
     (case parseFrontmatter ast of
        Inl e \<Rightarrow> Inl e
      | Inr frontmatter \<Rightarrow>
          (case parseImports ast of
             Inl e \<Rightarrow> Inl e
           | Inr imports \<Rightarrow>
               (case parseContent processor ast of
                  Inl e \<Rightarrow> Inl e
                | Inr content \<Rightarrow> Inr (frontmatter @ imports @ content))))"

section \<open>Notions of the specification\<close>

text \<open>A span is valid for a text: \<open>0 <= start < end <= len(source)\<close>.\<close>

definition validSpan :: "string \<Rightarrow> change \<Rightarrow> bool" where
  "validSpan src c = (0 \<le> start c \<and> start c < end' c \<and> end' c \<le> int (length src))"

text \<open>Two half-open spans do not overlap; no two spans of a list overlap.\<close>

definition disjointSpans :: "change \<Rightarrow> change \<Rightarrow> bool" where
  "disjointSpans a b = (end' a \<le> start b \<or> end' b \<le> start a)"

fun nonOverlapping :: "change list \<Rightarrow> bool" where
  "nonOverlapping [] = True"
| "nonOverlapping (c # cs) = (list_all (disjointSpans c) cs \<and> nonOverlapping cs)"

text \<open>
  The substitution at every span at once, read off the source from left to right: the
  changes come in ascending order of \<open>start\<close>, \<open>pos\<close> is the offset reached so far, the
  text between two spans is kept and each span is replaced by the debug form of its
  replacement text.
\<close>

fun substitute_spans :: "int \<Rightarrow> string \<Rightarrow> change list \<Rightarrow> string" where
  "substitute_spans pos src [] = drop (nat pos) src"
| "substitute_spans pos src (c # cs) =
     take (nat (start c - pos)) (drop (nat pos) src)
     @ (case ctext c of Str t \<Rightarrow> debug_text t | _ \<Rightarrow> [])
     @ substitute_spans (end' c) src cs"

text \<open>
  The order the specification warns against: the same replacement steps, run in
  ascending order of \<open>start\<close>.
\<close>

definition applyChanges_ascending :: "string \<Rightarrow> change list \<Rightarrow> error + string" where
  "applyChanges_ascending content changes = forEach_replace content (sort_key start changes)"

text \<open>A node after the walk is the node it was: the same tag at the same span.\<close>

definition same_node :: "node \<Rightarrow> node \<Rightarrow> bool" where
  "same_node node node1 = (position node1 = position node \<and> ntype node1 = ntype node)"

text \<open>
  A paragraph of plain text: its children are \<open>text\<close> leaves, which the walk leaves as
  they are.
\<close>

definition plain_paragraph :: "node \<Rightarrow> bool" where
  "plain_paragraph n =
     (ntype n = ''paragraph'' \<and>
      (case children n of
         None \<Rightarrow> False
       | Some ks \<Rightarrow> list_all (\<lambda>k. ntype k = ''text'') ks))"

section \<open>Example documents\<close>

text \<open>Nodes as the parser builds them: a parent, a literal, a directive and its label.\<close>

definition parent_node :: "string \<Rightarrow> int \<Rightarrow> int \<Rightarrow> node list \<Rightarrow> node" where
  "parent_node t s e kids = Node t (Some (s, e)) (Some kids) Undefined Undefined None [] False []"

definition literal_node :: "string \<Rightarrow> int \<Rightarrow> int \<Rightarrow> string \<Rightarrow> node" where
  "literal_node t s e v = Node t (Some (s, e)) None (Str v) Undefined None [] False []"

definition directive_node :: "string \<Rightarrow> int \<Rightarrow> int \<Rightarrow> node list \<Rightarrow> node" where
  "directive_node nm s e kids =
     Node ''containerDirective'' (Some (s, e)) (Some kids) Undefined (Str nm) None [] False []"

definition label_node :: "int \<Rightarrow> int \<Rightarrow> node list \<Rightarrow> node" where
  "label_node s e kids =
     Node ''paragraph'' (Some (s, e)) (Some kids) Undefined Undefined None [] True []"

text \<open>
  The document of the frontmatter example and the tree the parser gives for it: the
  \<open>yaml\<close> node spans the whole block, offsets 0 to 20, and its value is the text between
  the two dividers.
\<close>

definition guide_source :: string where
  "guide_source =
     ''---'' @ [CHR 0x0A] @ ''title: Guide'' @ [CHR 0x0A] @ ''---'' @ [CHR 0x0A, CHR 0x0A] @ ''Body''"

definition guide_tree :: node where
  "guide_tree = parent_node ''root'' 0 26
     [literal_node ''yaml'' 0 20 ''title: Guide'',
      parent_node ''paragraph'' 22 26 [literal_node ''text'' 22 26 ''Body'']]"

text \<open>
  A callout that holds a paragraph and a list: the three-colon fence with the name
  \<open>tip\<close>, the line \<open>Intro\<close>, an empty line, the list item \<open>- item\<close> and the closing fence.
\<close>

definition callout_list_source :: string where
  "callout_list_source =
     '':::tip'' @ [CHR 0x0A] @ ''Intro'' @ [CHR 0x0A, CHR 0x0A] @ ''- item'' @ [CHR 0x0A] @ '':::''"

definition callout_list_tree :: node where
  "callout_list_tree = parent_node ''root'' 0 24
     [directive_node ''tip'' 0 24
        [parent_node ''paragraph'' 7 12 [literal_node ''text'' 7 12 ''Intro''],
         parent_node ''list'' 14 20
           [parent_node ''listItem'' 14 20
              [parent_node ''paragraph'' 16 20 [literal_node ''text'' 16 20 ''item'']]]]]"

text \<open>
  Two imports and an export in one embedded program: the first import's target holds
  the locale segment, the second does not. The literals are the quoted targets, at
  offsets 17 to 34 and 49 to 57 of the document.
\<close>

definition esm_node :: "int \<Rightarrow> int \<Rightarrow> statement list \<Rightarrow> node" where
  "esm_node s e body = Node ''mdxjsEsm'' (Some (s, e)) None Undefined Undefined None [] False body"

definition imports_tree :: node where
  "imports_tree = parent_node ''root'' 0 58
     [esm_node 0 57
        [ImportDeclaration \<lparr>raw = [CHR 0x27] @ ''~/en/Card.astro'' @ [CHR 0x27],
                             lit_start = 17, lit_end = 34\<rparr>,
         OtherStatement,
         ImportDeclaration \<lparr>raw = [CHR 0x27] @ ''./x.js'' @ [CHR 0x27],
                             lit_start = 49, lit_end = 57\<rparr>]]"

text \<open>
  Callouts: one with a label and a paragraph (the fence \<open>:::tip[See also]\<close>, the line
  \<open>Read on\<close> and the closing fence), two that hold nothing but a label, and an empty
  one.
\<close>

definition labelled_callout :: node where
  "labelled_callout = directive_node ''tip'' 0 28
     [label_node 6 16 [literal_node ''text'' 7 15 ''See also''],
      parent_node ''paragraph'' 17 24 [literal_node ''text'' 17 24 ''Read on'']]"

definition label_only_callout :: node where
  "label_only_callout = directive_node ''note'' 0 22
     [label_node 7 18 [literal_node ''text'' 8 17 ''Heads up!'']]"

definition title_only_callout :: node where
  "title_only_callout = directive_node ''tip'' 0 20
     [label_node 6 16 [literal_node ''text'' 7 15 ''See also'']]"

definition empty_callout :: node where
  "empty_callout = directive_node ''tip'' 0 10 []"

text \<open>
  A serializer for the examples, in place of the external one: a leaf is its value, a
  parent the texts of its children one after the other.
\<close>

fun plain_text :: "node \<Rightarrow> string" where
  "plain_text (Node t p kids v n u a d b) =
     (case kids of
        None \<Rightarrow> js_string_of v
      | Some ks \<Rightarrow> concat (map plain_text ks))"

text \<open>
  A document whose frontmatter has one field, \<open>subtitle\<close>, and no \<open>title\<close> field, and
  the tree the parser gives for it: the \<open>yaml\<close> node spans offsets 0 to 19.
\<close>

definition subtitle_source :: string where
  "subtitle_source =
     ''---'' @ [CHR 0x0A] @ ''subtitle: X'' @ [CHR 0x0A] @ ''---'' @ [CHR 0x0A, CHR 0x0A] @ ''Body''"

definition subtitle_tree :: node where
  "subtitle_tree = parent_node ''root'' 0 25
     [literal_node ''yaml'' 0 19 ''subtitle: X'',
      parent_node ''paragraph'' 21 25 [literal_node ''text'' 21 25 ''Body'']]"

text \<open>
  Two imports whose targets hold the letters \<open>/en\<close> at the head of a longer name: the
  file \<open>./entry.js\<close>, which has no locale segment, and \<open>~/entries/en/Guide.astro\<close>,
  whose locale segment comes after the directory \<open>entries\<close>. The quoted targets stand
  at offsets 14 to 26 and 41 to 67 of the document.
\<close>

definition entry_imports_tree :: node where
  "entry_imports_tree = parent_node ''root'' 0 68
     [esm_node 0 67
        [ImportDeclaration \<lparr>raw = [CHR 0x27] @ ''./entry.js'' @ [CHR 0x27],
                             lit_start = 14, lit_end = 26\<rparr>,
         ImportDeclaration \<lparr>raw = [CHR 0x27] @ ''~/entries/en/Guide.astro'' @ [CHR 0x27],
                             lit_start = 41, lit_end = 67\<rparr>]]"

text \<open>
  A callout without a label: the fence \<open>:::tip\<close>, the line \<open>Read on\<close> and the closing
  fence.
\<close>

definition plain_callout :: node where
  "plain_callout = directive_node ''tip'' 0 18
     [parent_node ''paragraph'' 7 14 [literal_node ''text'' 7 14 ''Read on'']]"

section \<open>Properties of the patch applier\<close>

lemmas applier_defs =
  applyChanges_def applyChanges_ascending_def sort_changes_def replaceSubstring_def DEBUG_def
  substring_def substring_from_def debug_text_def toLocaleUpperCase_def upper_char_def Let_def
  validSpan_def disjointSpans_def

lemma substring_prefix:
  "0 \<le> s \<Longrightarrow> s \<le> int (length src) \<Longrightarrow> substring src 0 s = take (nat s) src"
  by (simp add: substring_def Let_def min_def max_def)

lemma substring_suffix:
  "0 \<le> e \<Longrightarrow> e \<le> int (length src) \<Longrightarrow> substring_from src e = drop (nat e) src"
  by (auto simp add: substring_from_def substring_def Let_def min_def max_def)

lemma substring_slice:
  "0 \<le> s \<Longrightarrow> s \<le> e \<Longrightarrow> e \<le> int (length src) \<Longrightarrow>
   substring src s e = take (nat (e - s)) (drop (nat s) src)"
  by (simp add: substring_def Let_def min_def max_def)

lemma replaceSubstring_valid:
  assumes "0 \<le> start c" "start c < end' c" "end' c \<le> int (length src)" "ctext c = Str t"
  shows "replaceSubstring src c
           = Inr (take (nat (start c)) src @ debug_text t @ drop (nat (end' c)) src)"
  using assms by (simp add: replaceSubstring_def DEBUG_def substring_prefix substring_suffix)

lemma take_slice_drop:
  assumes "0 \<le> s" "s \<le> e" "e \<le> int (length src)"
  shows "take (nat s) src @ take (nat (e - s)) (drop (nat s) src) @ drop (nat e) src = src"
proof -
  have "nat e = nat (e - s) + nat s" using assms by simp
  then have "drop (nat e) src = drop (nat (e - s)) (drop (nat s) src)"
    by (simp only: drop_drop)
  then have "take (nat (e - s)) (drop (nat s) src) @ drop (nat e) src = drop (nat s) src"
    by (simp only: append_take_drop_id)
  then show ?thesis by (simp only: append_take_drop_id)
qed

text \<open>
  C4. For every source text, \<open>applyChanges\<close> with an empty change list returns the
  source text unchanged (and the empty list stays empty).
\<close>

theorem applyChanges_empty: "applyChanges content [] = (Inr content, [])"
  by (simp add: applyChanges_def sort_changes_def)

text \<open>
  C2. \<open>replaceSubstring\<close> fails with the invalid-indices error exactly when
  \<open>start < 0\<close>, or \<open>end\<close> is greater than the length of the text it is given, or
  \<open>start >= end\<close>; the error carries the offending pair; and a call that fails yields
  no text at all: the loop of \<open>applyChanges\<close> stops there with the same error, whatever
  changes would follow, and a single invalid change makes \<open>applyChanges\<close> fail with it.
\<close>

theorem replaceSubstring_invalid_range:
  "(replaceSubstring original c = Inl (InvalidIndices (start c) (end' c)))
     = (start c < 0 \<or> end' c > int (length original) \<or> start c \<ge> end' c)
   \<and> (\<forall>s e. replaceSubstring original c = Inl (InvalidIndices s e) \<longrightarrow> s = start c \<and> e = end' c)
   \<and> (start c < 0 \<or> end' c > int (length original) \<or> start c \<ge> end' c \<longrightarrow>
        (\<forall>r. replaceSubstring original c \<noteq> Inr r)
        \<and> forEach_replace original (c # cs) = Inl (InvalidIndices (start c) (end' c))
        \<and> fst (applyChanges original [c]) = Inl (InvalidIndices (start c) (end' c)))"
proof (intro conjI allI impI)
  show "(replaceSubstring original c = Inl (InvalidIndices (start c) (end' c)))
     = (start c < 0 \<or> end' c > int (length original) \<or> start c \<ge> end' c)"
    by (auto simp add: replaceSubstring_def DEBUG_def split: jsval.splits)
next
  fix s e assume "replaceSubstring original c = Inl (InvalidIndices s e)"
  then show "s = start c" "e = end' c"
    by (auto simp add: replaceSubstring_def DEBUG_def split: jsval.splits if_splits)
next
  assume bad: "start c < 0 \<or> end' c > int (length original) \<or> start c \<ge> end' c"
  then have f: "replaceSubstring original c = Inl (InvalidIndices (start c) (end' c))"
    by (simp add: replaceSubstring_def)
  show "forEach_replace original (c # cs) = Inl (InvalidIndices (start c) (end' c))"
    using f by simp
  show "fst (applyChanges original [c]) = Inl (InvalidIndices (start c) (end' c))"
    using f by (simp add: applyChanges_def sort_changes_def)
  fix r show "replaceSubstring original c \<noteq> Inr r" using f by simp
qed

text \<open>The example of the specification: a change with \<open>start = -1\<close>.\<close>

theorem replaceSubstring_invalid_range_witness:
  "replaceSubstring ''abc''
      \<lparr>ctype = Undefined, ctext = Str ''x'', start = - 1, end' = 2, cnotes = Undefined\<rparr>
     = Inl (InvalidIndices (- 1) 2)
   \<and> fst (applyChanges ''abc''
      [\<lparr>ctype = Undefined, ctext = Str ''x'', start = - 1, end' = 2, cnotes = Undefined\<rparr>])
     = Inl (InvalidIndices (- 1) 2)"
  using replaceSubstring_invalid_range
    [of "''abc''"
        "\<lparr>ctype = Undefined, ctext = Str ''x'', start = - 1, end' = 2, cnotes = Undefined\<rparr>"
        "[]"]
  by simp

text \<open>
  C1, as the code has it. For a single change with a valid span whose text is the slice
  \<open>source[start:end]\<close>, \<open>applyChanges\<close> returns the source with the span replaced by the
  debug form of that slice (upper case, two dots for every space), because \<open>DEBUG\<close> is
  on; the source comes back unchanged exactly when the debug form of the slice is the
  slice itself.
\<close>

theorem applyChanges_single_slice:
  assumes "validSpan src c"
      and "ctext c = Str (substring src (start c) (end' c))"
  shows "fst (applyChanges src [c])
           = Inr (substring src 0 (start c)
                  @ debug_text (substring src (start c) (end' c))
                  @ substring_from src (end' c))
         \<and> (fst (applyChanges src [c]) = Inr src
              \<longleftrightarrow> debug_text (substring src (start c) (end' c)) = substring src (start c) (end' c))"
proof -
  have v: "0 \<le> start c" "start c < end' c" "end' c \<le> int (length src)"
    using assms(1) by (simp_all add: validSpan_def)
  let ?sl = "substring src (start c) (end' c)"
  have r: "replaceSubstring src c
             = Inr (take (nat (start c)) src @ debug_text ?sl @ drop (nat (end' c)) src)"
    using v assms(2) by (rule replaceSubstring_valid)
  have p: "substring src 0 (start c) = take (nat (start c)) src"
    using v by (simp add: substring_prefix)
  have s: "substring_from src (end' c) = drop (nat (end' c)) src"
    using v by (simp add: substring_suffix)
  have a: "fst (applyChanges src [c])
             = Inr (take (nat (start c)) src @ debug_text ?sl @ drop (nat (end' c)) src)"
    using r by (simp add: applyChanges_def sort_changes_def)
  have sl: "?sl = take (nat (end' c - start c)) (drop (nat (start c)) src)"
    using v by (simp add: substring_slice)
  have id: "take (nat (start c)) src @ ?sl @ drop (nat (end' c)) src = src"
    unfolding sl using v by (intro take_slice_drop) simp_all
  have "(take (nat (start c)) src @ debug_text ?sl @ drop (nat (end' c)) src = src)
        \<longleftrightarrow> debug_text ?sl = ?sl"
  proof
    assume "take (nat (start c)) src @ debug_text ?sl @ drop (nat (end' c)) src = src"
    then have "take (nat (start c)) src @ debug_text ?sl @ drop (nat (end' c)) src
        = take (nat (start c)) src @ ?sl @ drop (nat (end' c)) src"
      using id by simp
    then show "debug_text ?sl = ?sl" by simp
  next
    assume "debug_text ?sl = ?sl"
    then show "take (nat (start c)) src @ debug_text ?sl @ drop (nat (end' c)) src = src"
      using id by simp
  qed
  then show ?thesis using a p s by simp
qed

text \<open>A slice in upper case without spaces comes back as it is.\<close>

theorem applyChanges_single_slice_witness:
  "validSpan ''# FAQ''
      \<lparr>ctype = Undefined, ctext = Str ''FAQ'', start = 2, end' = 5, cnotes = Str ''''\<rparr>
   \<and> substring ''# FAQ'' 2 5 = ''FAQ''
   \<and> fst (applyChanges ''# FAQ''
        [\<lparr>ctype = Undefined, ctext = Str ''FAQ'', start = 2, end' = 5, cnotes = Str ''''\<rparr>])
       = Inr ''# FAQ''"
proof -
  let ?c = "\<lparr>ctype = Undefined, ctext = Str ''FAQ'', start = 2, end' = 5, cnotes = Str ''''\<rparr>"
  have v: "validSpan ''# FAQ'' ?c" by (simp add: validSpan_def)
  have s: "substring ''# FAQ'' 2 5 = ''FAQ''" by (simp add: substring_def Let_def)
  have t: "ctext ?c = Str (substring ''# FAQ'' (start ?c) (end' ?c))" using s by simp
  have d: "debug_text ''FAQ'' = ''FAQ''"
    by (simp add: debug_text_def toLocaleUpperCase_def upper_char_def)
  from applyChanges_single_slice[OF v t] s d
  have "fst (applyChanges ''# FAQ'' [?c]) = Inr ''# FAQ''"
    by (simp add: substring_def substring_from_def Let_def)
  with v s show ?thesis by simp
qed

text \<open>
  C1 as stated fails: the title change of the frontmatter example, with its text left
  equal to the slice \<open>Guide\<close>, puts \<open>GUIDE\<close> into the text.
\<close>

theorem applyChanges_identity_counterexample:
  "substring guide_source 11 16 = ''Guide''
   \<and> validSpan guide_source
        \<lparr>ctype = Str ''title'', ctext = Str ''Guide'', start = 11, end' = 16,
          cnotes = Str ''title for document''\<rparr>
   \<and> fst (applyChanges guide_source
        [\<lparr>ctype = Str ''title'', ctext = Str ''Guide'', start = 11, end' = 16,
           cnotes = Str ''title for document''\<rparr>])
       = Inr (''---'' @ [CHR 0x0A] @ ''title: GUIDE'' @ [CHR 0x0A] @ ''---''
              @ [CHR 0x0A, CHR 0x0A] @ ''Body'')
   \<and> fst (applyChanges guide_source
        [\<lparr>ctype = Str ''title'', ctext = Str ''Guide'', start = 11, end' = 16,
           cnotes = Str ''title for document''\<rparr>])
       \<noteq> Inr guide_source"
  by (simp add: applier_defs guide_source_def)

text \<open>
  C9. After a call of \<open>applyChanges\<close> the caller's array holds the same changes in
  descending order of \<open>start\<close> (the stable sort of the array it was given), whether the
  call returned a text or threw; the text argument is a value and is not part of the
  state the call leaves behind.
\<close>

theorem applyChanges_sorts_caller_list:
  "snd (applyChanges content changes) = sort_changes changes
   \<and> mset (snd (applyChanges content changes)) = mset changes
   \<and> sorted_wrt (\<lambda>a b. start a \<ge> start b) (snd (applyChanges content changes))"
proof -
  have "sorted (map (\<lambda>c. - start c) (sort_key (\<lambda>c. - start c) changes))" by simp
  then have "sorted_wrt (\<lambda>a b. start a \<ge> start b) (sort_key (\<lambda>c. - start c) changes)"
    by (simp add: sorted_wrt_map)
  then show ?thesis by (simp add: applyChanges_def sort_changes_def Let_def)
qed

text \<open>
  A call that fails after its first replacement: the array is reordered all the same.
\<close>

theorem applyChanges_sorts_caller_list_witness:
  "applyChanges ''abc''
     [\<lparr>ctype = Undefined, ctext = Str ''x'', start = 0, end' = 0, cnotes = Undefined\<rparr>,
      \<lparr>ctype = Undefined, ctext = Str ''y'', start = 1, end' = 2, cnotes = Undefined\<rparr>]
   = (Inl (InvalidIndices 0 0),
      [\<lparr>ctype = Undefined, ctext = Str ''y'', start = 1, end' = 2, cnotes = Undefined\<rparr>,
       \<lparr>ctype = Undefined, ctext = Str ''x'', start = 0, end' = 0, cnotes = Undefined\<rparr>])"
  using applyChanges_sorts_caller_list
    [of "''abc''"
        "[\<lparr>ctype = Undefined, ctext = Str ''x'', start = 0, end' = 0, cnotes = Undefined\<rparr>,
          \<lparr>ctype = Undefined, ctext = Str ''y'', start = 1, end' = 2, cnotes = Undefined\<rparr>]"]
  by (simp add: applier_defs)

subsection \<open>Descending order on non-overlapping spans\<close>

lemma forEach_replace_append:
  "forEach_replace r (xs @ ys) =
     (case forEach_replace r xs of Inl e \<Rightarrow> Inl e | Inr r' \<Rightarrow> forEach_replace r' ys)"
  by (induction xs arbitrary: r) (auto split: sum.splits)

lemma take_take_drop:
  assumes "0 \<le> p" "p \<le> s"
  shows "take (nat p) src @ take (nat (s - p)) (drop (nat p) src) = take (nat s) src"
proof -
  have "nat s = nat p + nat (s - p)" using assms by simp
  then show ?thesis by (simp only: take_add)
qed

text \<open>
  The loop on a chain of spans, taken from the last span to the first: when a change is
  applied, the text before its \<open>end\<close> is still the source's.
\<close>

lemma forEach_replace_chain:
  assumes "sorted_wrt (\<lambda>a b. end' a \<le> start b) as"
      and "\<forall>c\<in>set as. validSpan src c \<and> (\<exists>t. ctext c = Str t)"
      and "0 \<le> p" and "\<forall>c\<in>set as. p \<le> start c"
  shows "forEach_replace src (rev as) = Inr (take (nat p) src @ substitute_spans p src as)"
  using assms
proof (induction as arbitrary: p)
  case Nil
  then show ?case by simp
next
  case (Cons a as)
  obtain t where t: "ctext a = Str t" using Cons.prems(2) by auto
  have va: "0 \<le> start a" "start a < end' a" "end' a \<le> int (length src)"
    using Cons.prems(2) by (auto simp: validSpan_def)
  have pa: "p \<le> start a" using Cons.prems(4) by simp
  have ih: "forEach_replace src (rev as)
              = Inr (take (nat (end' a)) src @ substitute_spans (end' a) src as)"
    using Cons.prems va by (intro Cons.IH) auto
  let ?r = "take (nat (end' a)) src @ substitute_spans (end' a) src as"
  have len: "length (take (nat (end' a)) src) = nat (end' a)" using va by simp
  have v2: "end' a \<le> int (length ?r)" using va by simp
  have tk: "take (nat (start a)) ?r = take (nat (start a)) src"
  proof -
    have "nat (start a) \<le> length (take (nat (end' a)) src)" using va by simp
    then have "take (nat (start a)) ?r = take (nat (start a)) (take (nat (end' a)) src)"
      by simp
    also have "\<dots> = take (nat (start a)) src" using va by (simp add: min_def)
    finally show ?thesis .
  qed
  have dr: "drop (nat (end' a)) ?r = substitute_spans (end' a) src as"
    using len by simp
  have "replaceSubstring ?r a
          = Inr (take (nat (start a)) ?r @ debug_text t @ drop (nat (end' a)) ?r)"
    using va(1,2) v2 t by (rule replaceSubstring_valid)
  then have "replaceSubstring ?r a
          = Inr (take (nat (start a)) src @ debug_text t @ substitute_spans (end' a) src as)"
    by (simp only: tk dr)
  moreover have "take (nat p) src @ substitute_spans p src (a # as)
      = take (nat (start a)) src @ debug_text t @ substitute_spans (end' a) src as"
    using take_take_drop[OF Cons.prems(3) pa, of src] t by simp
  ultimately show ?case
    by (simp add: forEach_replace_append ih)
qed

lemma nonOverlapping_pairwise:
  "nonOverlapping cs \<Longrightarrow> distinct cs \<Longrightarrow> a \<in> set cs \<Longrightarrow> b \<in> set cs \<Longrightarrow> a \<noteq> b
   \<Longrightarrow> disjointSpans a b"
  by (induction cs) (auto simp: list_all_iff disjointSpans_def)

lemma nonOverlapping_distinct_start:
  "nonOverlapping cs \<Longrightarrow> \<forall>c\<in>set cs. validSpan src c \<Longrightarrow> distinct (map start cs)"
  by (induction cs) (fastforce simp: list_all_iff disjointSpans_def validSpan_def)+

text \<open>With pairwise different starts the descending sort is the ascending sort reversed.\<close>

lemma sort_changes_rev:
  assumes "distinct (map start cs)"
  shows "sort_changes cs = rev (sort_key start cs)"
proof -
  let ?f = "\<lambda>c. - start c"
  let ?xs = "sort_key ?f cs" and ?ys = "rev (sort_key start cs)"
  have inj: "inj_on ?f (set cs)"
    using assms by (auto simp: inj_on_def distinct_map)
  have d1: "distinct (map ?f ?xs)" using inj assms by (simp add: distinct_map distinct_sort)
  have d2: "distinct (map ?f ?ys)" using inj assms by (simp add: distinct_map)
  have s1: "sorted (map ?f ?xs)" by simp
  have "sorted (map start (sort_key start cs))" by simp
  then have s2: "sorted (map ?f ?ys)"
    by (simp add: sorted_wrt_map sorted_wrt_rev)
  have "set (map ?f ?xs) = set (map ?f ?ys)" by simp
  then have "map ?f ?xs = map ?f ?ys"
    using sorted_distinct_set_unique[OF s1 d1 s2 d2] by simp
  moreover have "inj_on ?f (set ?xs \<union> set ?ys)" using inj by simp
  ultimately have "?xs = ?ys" by (simp only: inj_on_map_eq_map)
  then show ?thesis by (simp add: sort_changes_def)
qed

lemma sorted_chain:
  assumes "nonOverlapping cs" "\<forall>c\<in>set cs. validSpan src c"
  shows "sorted_wrt (\<lambda>a b. end' a \<le> start b) (sort_key start cs)"
proof -
  have ds: "distinct (map start cs)" using assms by (rule nonOverlapping_distinct_start)
  then have dc: "distinct cs" by (simp add: distinct_map)
  have "sorted (map start (sort_key start cs))" by simp
  moreover have "distinct (map start (sort_key start cs))" using ds
    by (simp add: distinct_map)
  ultimately have "sorted_wrt (<) (map start (sort_key start cs))"
    by (simp only: strict_sorted_iff)
  then have "sorted_wrt (\<lambda>a b. start a < start b) (sort_key start cs)"
    by (simp only: sorted_wrt_map)
  then show ?thesis
  proof (rule sorted_wrt_mono_rel[rotated])
    fix a b
    assume "a \<in> set (sort_key start cs)" "b \<in> set (sort_key start cs)" "start a < start b"
    then have ab: "a \<in> set cs" "b \<in> set cs" "a \<noteq> b" by auto
    then have "disjointSpans a b" using assms(1) dc by (auto intro: nonOverlapping_pairwise)
    moreover have "start b < end' b" using ab assms(2) by (auto simp: validSpan_def)
    ultimately show "end' a \<le> start b"
      using \<open>start a < start b\<close> by (auto simp: disjointSpans_def)
  qed
qed

lemma applyChanges_nonOverlapping:
  assumes v: "\<forall>c\<in>set changes. validSpan content c \<and> (\<exists>t. ctext c = Str t)"
      and n: "nonOverlapping changes"
  shows "applyChanges content changes
           = (Inr (substitute_spans 0 content (sort_key start changes)),
              rev (sort_key start changes))"
proof -
  have vs: "\<forall>c\<in>set changes. validSpan content c" using v by blast
  have ds: "distinct (map start changes)" using n vs by (rule nonOverlapping_distinct_start)
  have sc: "sort_changes changes = rev (sort_key start changes)"
    using ds by (rule sort_changes_rev)
  have ch: "sorted_wrt (\<lambda>a b. end' a \<le> start b) (sort_key start changes)"
    using n vs by (rule sorted_chain)
  have v2: "\<forall>c\<in>set (sort_key start changes). validSpan content c \<and> (\<exists>t. ctext c = Str t)"
    using v by simp
  have lo: "\<forall>c\<in>set (sort_key start changes). 0 \<le> start c"
    using vs by (simp add: validSpan_def)
  have "forEach_replace content (rev (sort_key start changes))
          = Inr (take (nat 0) content @ substitute_spans 0 content (sort_key start changes))"
    using ch v2 _ lo by (rule forEach_replace_chain) simp
  then show ?thesis by (simp add: applyChanges_def sc Let_def)
qed

text \<open>
  C3, as the code has it. For every text and every list of changes with valid, pairwise
  non-overlapping spans and a replacement text each, \<open>applyChanges\<close> leaves the list in
  descending order of \<open>start\<close> and returns the text in which every span holds the debug
  form of its replacement and everything outside the spans is the source's: the
  substitution at all span locations at once. Ascending order can give another text:
  on \<open>Hello world\<close> with \<open>Good day\<close> for the first word and \<open>all\<close> for the second, the
  code returns \<open>GOOD..DAY ALL\<close> and the ascending run \<open>GOOD..ALLorld\<close>.
\<close>

theorem applyChanges_descending_substitution:
  "((\<forall>c\<in>set changes. validSpan content c \<and> (\<exists>t. ctext c = Str t)) \<and> nonOverlapping changes
      \<longrightarrow> applyChanges content changes
            = (Inr (substitute_spans 0 content (sort_key start changes)),
               rev (sort_key start changes)))
   \<and> fst (applyChanges ''Hello world''
        [\<lparr>ctype = Undefined, ctext = Str ''Good day'', start = 0, end' = 5, cnotes = Undefined\<rparr>,
         \<lparr>ctype = Undefined, ctext = Str ''all'', start = 6, end' = 11, cnotes = Undefined\<rparr>])
       = Inr ''GOOD..DAY ALL''
   \<and> applyChanges_ascending ''Hello world''
        [\<lparr>ctype = Undefined, ctext = Str ''Good day'', start = 0, end' = 5, cnotes = Undefined\<rparr>,
         \<lparr>ctype = Undefined, ctext = Str ''all'', start = 6, end' = 11, cnotes = Undefined\<rparr>]
       = Inr ''GOOD..ALLorld''"
proof (intro conjI impI)
  assume "(\<forall>c\<in>set changes. validSpan content c \<and> (\<exists>t. ctext c = Str t))
          \<and> nonOverlapping changes"
  then show "applyChanges content changes
            = (Inr (substitute_spans 0 content (sort_key start changes)),
               rev (sort_key start changes))"
    by (intro applyChanges_nonOverlapping) blast+
next
  show "fst (applyChanges ''Hello world''
        [\<lparr>ctype = Undefined, ctext = Str ''Good day'', start = 0, end' = 5, cnotes = Undefined\<rparr>,
         \<lparr>ctype = Undefined, ctext = Str ''all'', start = 6, end' = 11, cnotes = Undefined\<rparr>])
       = Inr ''GOOD..DAY ALL''"
    by (simp add: applier_defs)
next
  show "applyChanges_ascending ''Hello world''
        [\<lparr>ctype = Undefined, ctext = Str ''Good day'', start = 0, end' = 5, cnotes = Undefined\<rparr>,
         \<lparr>ctype = Undefined, ctext = Str ''all'', start = 6, end' = 11, cnotes = Undefined\<rparr>]
       = Inr ''GOOD..ALLorld''"
    by (simp add: applier_defs)
qed

text \<open>Two changes, given in ascending order: both words are replaced in place.\<close>

theorem applyChanges_descending_substitution_witness:
  "validSpan ''Hello world''
      \<lparr>ctype = Undefined, ctext = Str ''Hi'', start = 0, end' = 5, cnotes = Undefined\<rparr>
   \<and> validSpan ''Hello world''
      \<lparr>ctype = Undefined, ctext = Str ''everyone'', start = 6, end' = 11, cnotes = Undefined\<rparr>
   \<and> nonOverlapping
        [\<lparr>ctype = Undefined, ctext = Str ''Hi'', start = 0, end' = 5, cnotes = Undefined\<rparr>,
         \<lparr>ctype = Undefined, ctext = Str ''everyone'', start = 6, end' = 11, cnotes = Undefined\<rparr>]
   \<and> applyChanges ''Hello world''
        [\<lparr>ctype = Undefined, ctext = Str ''Hi'', start = 0, end' = 5, cnotes = Undefined\<rparr>,
         \<lparr>ctype = Undefined, ctext = Str ''everyone'', start = 6, end' = 11, cnotes = Undefined\<rparr>]
       = (Inr ''HI EVERYONE'',
          [\<lparr>ctype = Undefined, ctext = Str ''everyone'', start = 6, end' = 11, cnotes = Undefined\<rparr>,
           \<lparr>ctype = Undefined, ctext = Str ''Hi'', start = 0, end' = 5, cnotes = Undefined\<rparr>])"
proof -
  let ?a = "\<lparr>ctype = Undefined, ctext = Str ''Hi'', start = 0, end' = 5, cnotes = Undefined\<rparr>"
  let ?b = "\<lparr>ctype = Undefined, ctext = Str ''everyone'', start = 6, end' = 11, cnotes = Undefined\<rparr>"
  have va: "validSpan ''Hello world'' ?a" and vb: "validSpan ''Hello world'' ?b"
    by (simp_all add: validSpan_def)
  have no: "nonOverlapping [?a, ?b]" by (simp add: disjointSpans_def)
  have h: "(\<forall>c\<in>set [?a, ?b]. validSpan ''Hello world'' c \<and> (\<exists>t. ctext c = Str t))
           \<and> nonOverlapping [?a, ?b]"
    using va vb no by simp
  have "applyChanges ''Hello world'' [?a, ?b]
          = (Inr (substitute_spans 0 ''Hello world'' (sort_key start [?a, ?b])),
             rev (sort_key start [?a, ?b]))"
    using applyChanges_descending_substitution[of "[?a, ?b]" "''Hello world''"] h by blast
  then have "applyChanges ''Hello world'' [?a, ?b] = (Inr ''HI EVERYONE'', [?b, ?a])"
    by (simp add: debug_text_def toLocaleUpperCase_def upper_char_def)
  with va vb no show ?thesis by simp
qed

text \<open>
  C3 as stated fails twice on one input. The replacement lengths (2) differ from the
  span lengths (1), yet ascending and descending order give the same text; and the text
  put in is not the replacement \<open>aa\<close> but its debug form.
\<close>

theorem order_sensitivity_counterexample:
  "validSpan ''AAAA''
      \<lparr>ctype = Undefined, ctext = Str ''aa'', start = 0, end' = 1, cnotes = Undefined\<rparr>
   \<and> validSpan ''AAAA''
      \<lparr>ctype = Undefined, ctext = Str ''aa'', start = 2, end' = 3, cnotes = Undefined\<rparr>
   \<and> nonOverlapping
        [\<lparr>ctype = Undefined, ctext = Str ''aa'', start = 0, end' = 1, cnotes = Undefined\<rparr>,
         \<lparr>ctype = Undefined, ctext = Str ''aa'', start = 2, end' = 3, cnotes = Undefined\<rparr>]
   \<and> fst (applyChanges ''AAAA''
        [\<lparr>ctype = Undefined, ctext = Str ''aa'', start = 0, end' = 1, cnotes = Undefined\<rparr>,
         \<lparr>ctype = Undefined, ctext = Str ''aa'', start = 2, end' = 3, cnotes = Undefined\<rparr>])
       = Inr ''AAAAAA''
   \<and> applyChanges_ascending ''AAAA''
        [\<lparr>ctype = Undefined, ctext = Str ''aa'', start = 0, end' = 1, cnotes = Undefined\<rparr>,
         \<lparr>ctype = Undefined, ctext = Str ''aa'', start = 2, end' = 3, cnotes = Undefined\<rparr>]
       = Inr ''AAAAAA''"
  by (simp add: applier_defs)

section \<open>Properties of the extractors\<close>

lemmas tree_defs = parent_node_def literal_node_def directive_node_def label_node_def esm_node_def

subsection \<open>Frontmatter\<close>

lemma regex_exec_from_occurs:
  "regex_exec_from i s = Some (j, g1, g2) \<Longrightarrow> sublist ''title:'' s"
proof (induction s arbitrary: i)
  case Nil
  then show ?case by simp
next
  case (Cons c cs)
  show ?case
  proof (cases "match_at (c # cs)")
    case None
    with Cons.prems have "regex_exec_from (Suc i) cs = Some (j, g1, g2)" by simp
    then have "sublist ''title:'' cs" by (rule Cons.IH)
    then show ?thesis by (simp add: sublist_Cons_right)
  next
    case (Some m)
    then have "take 6 (c # cs) = ''title:''"
      by (auto simp: match_at_def split: if_splits)
    then have "prefix ''title:'' (c # cs)" by (metis take_is_prefix)
    then show ?thesis by (rule prefix_imp_sublist)
  qed
qed

lemma regex_exec_no_title:
  assumes "\<not> sublist ''title:'' s"
  shows "regex_exec s = None"
proof (rule ccontr)
  assume "regex_exec s \<noteq> None"
  then obtain j g1 g2 where "regex_exec_from 0 s = Some (j, g1, g2)"
    by (auto simp: regex_exec_def)
  then show False using regex_exec_from_occurs assms by blast
qed

lemma parseFrontmatter_guide:
  "parseFrontmatter guide_tree
     = Inr [\<lparr>ctype = Str ''title'', ctext = Str ''Guide'', start = 11, end' = 16,
             cnotes = Str ''title for document''\<rparr>]"
  by (simp add: parseFrontmatter_def guide_tree_def tree_defs regex_exec_def match_at_def
      is_space_def is_line_terminator_def)

lemma match_dots_take:
  "match_dots s m = Some v \<Longrightarrow> m \<le> length s \<Longrightarrow> v \<noteq> [] \<and> prefix v s"
  by (induction s m rule: match_dots.induct) (auto simp: take_is_prefix split: if_splits)

lemma match_spaces_split:
  "match_spaces s k = Some (sp, v) \<Longrightarrow> k \<le> length s \<Longrightarrow> v \<noteq> [] \<and> prefix (sp @ v) s"
proof (induction s k rule: match_spaces.induct)
  case (1 s)
  then obtain v' where m: "match_dots s (length (takeWhile (\<lambda>c. \<not> is_line_terminator c) s)) = Some v'"
    and e: "sp = []" "v = v'"
    by (auto split: option.splits)
  have "length (takeWhile (\<lambda>c. \<not> is_line_terminator c) s) \<le> length s"
    by (rule length_takeWhile_le)
  with m have "v' \<noteq> [] \<and> prefix v' s" by (rule match_dots_take)
  then show ?case using e by simp
next
  case (2 s k)
  show ?case
  proof (cases "match_dots (drop (Suc k) s)
             (length (takeWhile (\<lambda>c. \<not> is_line_terminator c) (drop (Suc k) s)))")
    case None
    with 2 show ?thesis by auto
  next
    case (Some v')
    with "2.prems" have e: "sp = take (Suc k) s" "v = v'" by auto
    have "length (takeWhile (\<lambda>c. \<not> is_line_terminator c) (drop (Suc k) s)) \<le> length (drop (Suc k) s)"
      by (rule length_takeWhile_le)
    with Some have p: "v' \<noteq> [] \<and> prefix v' (drop (Suc k) s)" by (rule match_dots_take)
    then have "prefix (take (Suc k) s @ v') (take (Suc k) s @ drop (Suc k) s)"
      by (simp only: same_prefix_prefix)
    then have "prefix (take (Suc k) s @ v') s" by (simp only: append_take_drop_id)
    then show ?thesis using e p by simp
  qed
qed

lemma match_at_split:
  assumes "match_at s = Some (g1, g2)"
  shows "g2 \<noteq> [] \<and> prefix (g1 @ g2) s"
proof -
  from assms have t: "take 6 s = ''title:''"
    by (auto simp: match_at_def split: if_splits)
  from assms t obtain sp where m: "match_spaces (drop 6 s) (length (takeWhile is_space (drop 6 s))) = Some (sp, g2)"
    and g: "g1 = ''title:'' @ sp"
    by (auto simp: match_at_def split: option.splits)
  have "length (takeWhile is_space (drop 6 s)) \<le> length (drop 6 s)" by (rule length_takeWhile_le)
  with m have p: "g2 \<noteq> [] \<and> prefix (sp @ g2) (drop 6 s)" by (rule match_spaces_split)
  then have "prefix (take 6 s @ sp @ g2) (take 6 s @ drop 6 s)"
    by (simp only: same_prefix_prefix)
  then have "prefix (take 6 s @ sp @ g2) s" by (simp only: append_take_drop_id)
  then show ?thesis using p g t by simp
qed

lemma regex_exec_from_split:
  "regex_exec_from i s = Some (j, g1, g2) \<Longrightarrow>
     i \<le> j \<and> g2 \<noteq> [] \<and> prefix (g1 @ g2) (drop (j - i) s)"
proof (induction s arbitrary: i)
  case Nil
  then show ?case by simp
next
  case (Cons c cs)
  show ?case
  proof (cases "match_at (c # cs)")
    case None
    with Cons.prems have "regex_exec_from (Suc i) cs = Some (j, g1, g2)" by simp
    then have "Suc i \<le> j \<and> g2 \<noteq> [] \<and> prefix (g1 @ g2) (drop (j - Suc i) cs)" by (rule Cons.IH)
    moreover then have "drop (j - i) (c # cs) = drop (j - Suc i) cs"
      by (metis Suc_diff_le diff_Suc_Suc drop_Suc_Cons)
    ultimately show ?thesis by simp
  next
    case (Some m)
    with Cons.prems have "m = (g1, g2)" "j = i" by (auto split: prod.splits)
    with Some match_at_split[of "c # cs" g1 g2] show ?thesis by simp
  qed
qed

lemma regex_exec_slice:
  assumes "regex_exec s = Some (j, g1, g2)"
  shows "g2 \<noteq> [] \<and> take (length g2) (drop (j + length g1) s) = g2
         \<and> j + length g1 + length g2 \<le> length s"
proof -
  from assms have "g2 \<noteq> [] \<and> prefix (g1 @ g2) (drop j s)"
    using regex_exec_from_split[of 0 s j g1 g2] by (simp add: regex_exec_def)
  then obtain r where ne: "g2 \<noteq> []" and d: "drop j s = g1 @ g2 @ r" by (auto simp: prefix_def)
  have "drop (j + length g1) s = drop (length g1) (drop j s)" by (simp add: add.commute)
  also have "\<dots> = g2 @ r" using d by simp
  finally have e: "drop (j + length g1) s = g2 @ r" .
  have "length s - j = length g1 + length g2 + length r"
    using d by (metis length_drop length_append add.assoc)
  moreover have "0 < length g2" using ne by simp
  ultimately have "j + length g1 + length g2 \<le> length s" by arith
  then show ?thesis using ne e by simp
qed

text \<open>
  The span of the title change in general: when the raw text of the \<open>yaml\<close> node stands
  in the source four characters after the node's start offset (behind the divider), a
  change that \<open>parseFrontmatter\<close> emits has a valid span, and the slice of the source at
  that span is the text of the change.
\<close>

lemma parseFrontmatter_span:
  assumes "children ast = Some kids"
      and "find (\<lambda>node. ntype node = ''yaml'') kids = Some frontmatter"
      and "position frontmatter = Some (s, e)" and "0 \<le> s"
      and "drop (nat s + 4) src = js_string_of (nvalue frontmatter) @ rest"
      and "parseFrontmatter ast = Inr cs"
  shows "cs = [] \<or> (\<exists>c title. cs = [c] \<and> ctype c = Str ''title'' \<and> ctext c = Str title
            \<and> validSpan src c \<and> substring src (start c) (end' c) = title)"
proof (cases "regex_exec (js_string_of (nvalue frontmatter))")
  case None
  then show ?thesis using assms by (simp add: parseFrontmatter_def)
next
  case (Some m)
  obtain j g1 g2 where m: "m = (j, g1, g2)" by (cases m) auto
  let ?v = "js_string_of (nvalue frontmatter)"
  from regex_exec_slice[of ?v j g1 g2] Some m
  have ne: "g2 \<noteq> []" and sl: "take (length g2) (drop (j + length g1) ?v) = g2"
    and le: "j + length g1 + length g2 \<le> length ?v" by auto
  let ?a = "s + (4 + int j + int (length g1))"
  let ?c = "\<lparr>ctype = Str ''title'', ctext = Str g2, start = ?a, end' = ?a + int (length g2),
             cnotes = Str ''title for document''\<rparr>"
  have cs: "cs = [?c]" using assms Some m by (simp add: parseFrontmatter_def Let_def add.assoc)
  have vlen: "0 < length ?v" using ne le by (cases ?v) auto
  have dl: "length src - (nat s + 4) = length ?v + length rest"
    using assms(5) by (metis length_drop length_append)
  have len: "nat s + 4 + length ?v + length rest = length src"
    using dl vlen by arith
  have vs: "validSpan src ?c"
    using assms(4) ne le len by (simp add: validSpan_def)
  have "drop (nat s + 4 + (j + length g1)) src = drop (j + length g1) (?v @ rest)"
    using assms(5) by (metis drop_drop add.commute)
  also have "\<dots> = drop (j + length g1) ?v @ rest" using le by simp
  finally have d2: "drop (nat s + 4 + (j + length g1)) src = drop (j + length g1) ?v @ rest" .
  have "take (length g2) (drop (nat s + 4 + (j + length g1)) src)
          = take (length g2) (drop (j + length g1) ?v)"
    unfolding d2 using le by simp
  then have tk: "take (length g2) (drop (nat s + 4 + (j + length g1)) src) = g2"
    using sl by simp
  have na: "nat ?a = nat s + 4 + (j + length g1)" using assms(4) by simp
  have "substring src ?a (?a + int (length g2))
          = take (nat (?a + int (length g2) - ?a)) (drop (nat ?a) src)"
    using assms(4) vs by (intro substring_slice) (simp_all add: validSpan_def)
  then have "substring src ?a (?a + int (length g2)) = g2" using tk na by simp
  then show ?thesis using cs vs by simp
qed

text \<open>
  What the code does on the inputs the pattern tells apart. For a root whose
  children hold no \<open>yaml\<close> node, and for a root whose first \<open>yaml\<close> node has a raw text
  that the title pattern does not match (in particular a raw text in which \<open>title:\<close>
  does not occur), \<open>parseFrontmatter\<close> returns the empty list and no error. On the
  tree of the frontmatter example it returns exactly one change, of type \<open>title\<close>, with
  text \<open>Guide\<close> and the span from 11 to 16, which is the block's start offset 0, plus 4
  for the divider, plus 7 for \<open>title: \<close>; that slice of the source is \<open>Guide\<close>.
\<close>

lemma parseFrontmatter_title:
  "(children ast = Some kids \<and> find (\<lambda>node. ntype node = ''yaml'') kids = None
      \<longrightarrow> parseFrontmatter ast = Inr [])
   \<and> (children ast = Some kids \<and> find (\<lambda>node. ntype node = ''yaml'') kids = Some frontmatter
       \<and> regex_exec (js_string_of (nvalue frontmatter)) = None
      \<longrightarrow> parseFrontmatter ast = Inr [])
   \<and> (children ast = Some kids \<and> find (\<lambda>node. ntype node = ''yaml'') kids = Some frontmatter
       \<and> \<not> sublist ''title:'' (js_string_of (nvalue frontmatter))
      \<longrightarrow> parseFrontmatter ast = Inr [])
   \<and> parseFrontmatter guide_tree
       = Inr [\<lparr>ctype = Str ''title'', ctext = Str ''Guide'', start = 11, end' = 16,
               cnotes = Str ''title for document''\<rparr>]
   \<and> substring guide_source 11 16 = ''Guide''"
proof (intro conjI impI)
  assume "children ast = Some kids \<and> find (\<lambda>node. ntype node = ''yaml'') kids = None"
  then show "parseFrontmatter ast = Inr []" by (simp add: parseFrontmatter_def)
next
  assume "children ast = Some kids \<and> find (\<lambda>node. ntype node = ''yaml'') kids = Some frontmatter
       \<and> regex_exec (js_string_of (nvalue frontmatter)) = None"
  then show "parseFrontmatter ast = Inr []" by (simp add: parseFrontmatter_def)
next
  assume a: "children ast = Some kids \<and> find (\<lambda>node. ntype node = ''yaml'') kids = Some frontmatter
       \<and> \<not> sublist ''title:'' (js_string_of (nvalue frontmatter))"
  then have "regex_exec (js_string_of (nvalue frontmatter)) = None"
    by (intro regex_exec_no_title) blast
  with a show "parseFrontmatter ast = Inr []" by (simp add: parseFrontmatter_def)
next
  show "parseFrontmatter guide_tree
       = Inr [\<lparr>ctype = Str ''title'', ctext = Str ''Guide'', start = 11, end' = 16,
               cnotes = Str ''title for document''\<rparr>]"
    by (rule parseFrontmatter_guide)
next
  show "substring guide_source 11 16 = ''Guide''"
    by (simp add: substring_def guide_source_def Let_def)
qed

text \<open>A document without frontmatter, and a frontmatter that names only an author.\<close>

lemma parseFrontmatter_title_witness:
  "parseFrontmatter
      (parent_node ''root'' 0 4 [parent_node ''paragraph'' 0 4 [literal_node ''text'' 0 4 ''Body'']])
     = Inr []
   \<and> parseFrontmatter (parent_node ''root'' 0 19 [literal_node ''yaml'' 0 19 ''author: Ann''])
     = Inr []"
proof -
  let ?k1 = "[parent_node ''paragraph'' 0 4 [literal_node ''text'' 0 4 ''Body'']]"
  let ?y = "literal_node ''yaml'' 0 19 ''author: Ann''"
  have 1: "parseFrontmatter (parent_node ''root'' 0 4 ?k1) = Inr []"
    using parseFrontmatter_title[of "parent_node ''root'' 0 4 ?k1" ?k1]
    by (simp add: tree_defs)
  have r: "\<not> sublist ''title:'' (js_string_of (nvalue ?y))"
    by (simp add: tree_defs sublist_code)
  have 2: "parseFrontmatter (parent_node ''root'' 0 19 [?y]) = Inr []"
    using parseFrontmatter_title[of "parent_node ''root'' 0 19 [?y]" "[?y]" ?y] r
    by (simp add: tree_defs)
  from 1 2 show ?thesis by simp
qed

text \<open>
  C5. The pattern is not anchored at the start of a line, so it also matches inside a
  longer key. On the document whose frontmatter is the single line \<open>subtitle: X\<close>, a
  metadata block without a title field, \<open>parseFrontmatter\<close> does not return the empty
  list: it returns one change of type \<open>title\<close> with the text \<open>X\<close>, the value of the
  subtitle, at the span from 14 to 15, with the notes \<open>title for document\<close>. The only
  line of the block, offsets 4 to 15 of the source, is \<open>subtitle: X\<close>.
\<close>

theorem parseFrontmatter_subtitle:
  "parseFrontmatter subtitle_tree
     = Inr [\<lparr>ctype = Str ''title'', ctext = Str ''X'', start = 14, end' = 15,
             cnotes = Str ''title for document''\<rparr>]
   \<and> parseFrontmatter subtitle_tree \<noteq> Inr []
   \<and> substring subtitle_source 4 15 = ''subtitle: X''
   \<and> substring subtitle_source 14 15 = ''X''"
  by (simp add: parseFrontmatter_def subtitle_tree_def subtitle_source_def tree_defs
      regex_exec_def match_at_def is_space_def is_line_terminator_def
      substring_def Let_def)

subsection \<open>Imports\<close>

lemma prefix_take_iff: "prefix xs ys \<longleftrightarrow> take (length xs) ys = xs"
  by (metis append_eq_conv_conj prefix_def take_is_prefix)

lemma replace_first_absent:
  assumes "pat \<noteq> []"
  shows "\<not> sublist pat s \<Longrightarrow> replace_first pat rep s = s"
proof (induction s)
  case Nil
  then show ?case using assms by simp
next
  case (Cons c cs)
  then have "\<not> prefix pat (c # cs)" "\<not> sublist pat cs"
    by (simp_all add: sublist_Cons_right)
  then show ?case using Cons.IH by (simp add: prefix_take_iff)
qed

lemma replace_first_length:
  assumes "pat \<noteq> []"
  shows "sublist pat s \<Longrightarrow> length (replace_first pat rep s) + length pat = length s + length rep"
proof (induction s)
  case Nil
  then show ?case using assms by simp
next
  case (Cons c cs)
  show ?case
  proof (cases "prefix pat (c # cs)")
    case True
    then have "take (length pat) (c # cs) = pat" by (simp add: prefix_take_iff)
    moreover have "length pat \<le> length (c # cs)" using True by (rule prefix_length_le)
    ultimately show ?thesis by simp
  next
    case False
    then have "sublist pat cs" using Cons.prems by (simp add: sublist_Cons_right)
    then have "length (replace_first pat rep cs) + length pat = length cs + length rep"
      by (rule Cons.IH)
    then show ?thesis using False by (simp add: prefix_take_iff)
  qed
qed

lemma replace_first_present:
  assumes "pat \<noteq> []"
  shows "\<not> sublist pat (pre @ butlast pat)
         \<Longrightarrow> replace_first pat rep (pre @ pat @ post) = pre @ rep @ post"
proof (induction pre)
  case Nil
  obtain a pat' where pc: "pat = a # pat'" using assms by (cases pat) auto
  then have "replace_first pat rep (pat @ post) = rep @ drop (length pat) (pat @ post)"
    by simp
  then show ?case by simp
next
  case (Cons c pre)
  let ?s = "(c # pre) @ pat @ post"
  have np: "take (length pat) ?s \<noteq> pat"
  proof
    assume e: "take (length pat) ?s = pat"
    have l: "length pat \<le> length ((c # pre) @ butlast pat)" by simp
    have "?s = ((c # pre) @ butlast pat) @ ([last pat] @ post)"
      using assms by simp
    then have "take (length pat) ?s = take (length pat) ((c # pre) @ butlast pat)"
      using l by (metis take_append diff_is_0_eq take_0 append_Nil2)
    then have "take (length pat) ((c # pre) @ butlast pat) = pat" using e by simp
    then have "prefix pat ((c # pre) @ butlast pat)" by (metis take_is_prefix)
    then show False using Cons.prems by (meson prefix_imp_sublist)
  qed
  have "\<not> sublist pat (pre @ butlast pat)"
    using Cons.prems by (simp add: sublist_Cons_right)
  then have "replace_first pat rep (pre @ pat @ post) = pre @ rep @ post" by (rule Cons.IH)
  then show ?case using np by simp
qed

lemma localizeUrl_eq: "localizeUrl u = replace_first ''/en'' ''/%%locale%%'' u"
  by (simp add: localizeUrl_def createPlaceholder_def shortLocale_def DEFAULT_LOCALE_def)

lemma map_filter_id_append:
  "List.map_filter (\<lambda>x. x) (xs @ ys) = List.map_filter (\<lambda>x. x) xs @ List.map_filter (\<lambda>x. x) ys"
  by (simp add: List.map_filter_def)

lemma map_filter_id_map:
  "List.map_filter (\<lambda>x. x) (map f xs)
     = concat (map (\<lambda>child. case f child of None \<Rightarrow> [] | Some c \<Rightarrow> [c]) xs)"
  by (induction xs) (auto simp: List.map_filter_def split: option.splits)

lemma map_filter_concat:
  "List.map_filter (\<lambda>x. x) (concat (map (\<lambda>node. map f (g node)) ns))
     = concat (map (\<lambda>node. concat (map (\<lambda>child. case f child of None \<Rightarrow> [] | Some c \<Rightarrow> [c])
                                       (g node))) ns)"
  by (induction ns) (simp_all add: map_filter_id_append map_filter_id_map List.map_filter_simps)

text \<open>
  What the code does, in terms of occurrences of the letters \<open>/en\<close>. \<open>parseImports\<close>
  goes through the statements of every top-level \<open>mdxjsEsm\<close> node in order. A statement
  that is not an import gives nothing. An import gives nothing when the rewritten
  target equals the original, and otherwise exactly one change of type \<open>Import\<close> whose
  span is the span of the target literal and whose text is the rewritten literal. The
  rewriting replaces the first occurrence of \<open>/en\<close> by \<open>/%%locale%%\<close>; the rewritten
  target equals the original exactly when \<open>/en\<close> does not occur in it.
\<close>

lemma parseImports_reference_changes:
  "(children ast = Some kids \<longrightarrow>
      parseImports ast
        = Inr (concat (map (\<lambda>node. concat (map (\<lambda>child. case import_change child of
                                                           None \<Rightarrow> [] | Some c \<Rightarrow> [c])
                                              (estree_body node)))
                        (filter (\<lambda>node. ntype node = ''mdxjsEsm'') kids))))
   \<and> import_change OtherStatement = None
   \<and> import_change (ImportDeclaration src)
       = (if localizeUrl (raw src) = raw src then None
          else Some \<lparr>ctype = Str ''Import'', ctext = Str (localizeUrl (raw src)),
                     start = lit_start src, end' = lit_end src, cnotes = Undefined\<rparr>)
   \<and> (localizeUrl u = u) = (\<not> sublist ''/en'' u)
   \<and> (\<not> sublist ''/en'' (pre @ ''/e'') \<longrightarrow>
        localizeUrl (pre @ ''/en'' @ post) = pre @ ''/%%locale%%'' @ post)"
proof (intro conjI impI)
  assume "children ast = Some kids"
  then show "parseImports ast
        = Inr (concat (map (\<lambda>node. concat (map (\<lambda>child. case import_change child of
                                                           None \<Rightarrow> [] | Some c \<Rightarrow> [c])
                                              (estree_body node)))
                        (filter (\<lambda>node. ntype node = ''mdxjsEsm'') kids)))"
    by (simp add: parseImports_def map_filter_concat)
next
  show "import_change OtherStatement = None" by (simp add: import_change_def)
next
  show "import_change (ImportDeclaration src)
       = (if localizeUrl (raw src) = raw src then None
          else Some \<lparr>ctype = Str ''Import'', ctext = Str (localizeUrl (raw src)),
                     start = lit_start src, end' = lit_end src, cnotes = Undefined\<rparr>)"
    by (auto simp add: import_change_def Let_def)
next
  show "(localizeUrl u = u) = (\<not> sublist ''/en'' u)"
  proof
    assume e: "localizeUrl u = u"
    show "\<not> sublist ''/en'' u"
    proof
      assume "sublist ''/en'' u"
      then have "length (replace_first ''/en'' ''/%%locale%%'' u) + length ''/en''
                   = length u + length ''/%%locale%%''"
        by (intro replace_first_length) simp_all
      then show False using e by (simp add: localizeUrl_eq)
    qed
  next
    assume "\<not> sublist ''/en'' u"
    then show "localizeUrl u = u"
      unfolding localizeUrl_eq by (intro replace_first_absent) simp_all
  qed
next
  assume a: "\<not> sublist ''/en'' (pre @ ''/e'')"
  have "replace_first ''/en'' ''/%%locale%%'' (pre @ ''/en'' @ post) = pre @ ''/%%locale%%'' @ post"
    using a by (intro replace_first_present) simp_all
  then show "localizeUrl (pre @ ''/en'' @ post) = pre @ ''/%%locale%%'' @ post"
    by (simp only: localizeUrl_eq)
qed

text \<open>The program of the example: one change, for the import that holds the segment.\<close>

lemma parseImports_reference_changes_witness:
  "parseImports imports_tree
     = Inr [\<lparr>ctype = Str ''Import'',
             ctext = Str ([CHR 0x27] @ ''~/%%locale%%/Card.astro'' @ [CHR 0x27]),
             start = 17, end' = 34, cnotes = Undefined\<rparr>]
   \<and> localizeUrl ''./x.js'' = ''./x.js''
   \<and> localizeUrl (''~'' @ ''/en'' @ ''/Card.astro'') = ''~'' @ ''/%%locale%%'' @ ''/Card.astro''"
proof -
  let ?body = "[ImportDeclaration \<lparr>raw = [CHR 0x27] @ ''~/en/Card.astro'' @ [CHR 0x27],
                             lit_start = 17, lit_end = 34\<rparr>,
         OtherStatement,
         ImportDeclaration \<lparr>raw = [CHR 0x27] @ ''./x.js'' @ [CHR 0x27],
                             lit_start = 49, lit_end = 57\<rparr>]"
  have k: "children imports_tree = Some [esm_node 0 57 ?body]"
    by (simp add: imports_tree_def parent_node_def)
  have n1: "\<not> sublist ''/en'' ''./x.js''" by (simp add: sublist_code)
  have n2: "\<not> sublist ''/en'' (''~'' @ ''/e'')" by (simp add: sublist_code)
  note t = parseImports_reference_changes
             [of imports_tree "[esm_node 0 57 ?body]" _ "''./x.js''" "''~''" "''/Card.astro''"]
  have 1: "parseImports imports_tree
     = Inr [\<lparr>ctype = Str ''Import'',
             ctext = Str ([CHR 0x27] @ ''~/%%locale%%/Card.astro'' @ [CHR 0x27]),
             start = 17, end' = 34, cnotes = Undefined\<rparr>]"
    using t k
    by (simp add: esm_node_def import_change_def localizeUrl_def createPlaceholder_def
        shortLocale_def DEFAULT_LOCALE_def Let_def)
  have 2: "localizeUrl ''./x.js'' = ''./x.js''" using t n1 by blast
  have 3: "localizeUrl (''~'' @ ''/en'' @ ''/Card.astro'') = ''~'' @ ''/%%locale%%'' @ ''/Card.astro''"
    using t n2 by blast
  from 1 2 3 show ?thesis by simp
qed

text \<open>
  C6. The rewriting looks for the three letters \<open>/en\<close> and not for a path segment
  \<open>en\<close>. On the import of \<open>./entry.js\<close>, a target without a locale segment,
  \<open>parseImports\<close> emits a change whose text is \<open>./%%locale%%try.js\<close>; on the import of
  \<open>~/entries/en/Guide.astro\<close> it emits a change whose text is
  \<open>~/%%locale%%tries/en/Guide.astro\<close>: the directory name is cut and the locale
  segment is still in place. Both changes carry the span of their literal.
\<close>

theorem parseImports_entry:
  "parseImports entry_imports_tree
     = Inr [\<lparr>ctype = Str ''Import'',
             ctext = Str ([CHR 0x27] @ ''./%%locale%%try.js'' @ [CHR 0x27]),
             start = 14, end' = 26, cnotes = Undefined\<rparr>,
            \<lparr>ctype = Str ''Import'',
             ctext = Str ([CHR 0x27] @ ''~/%%locale%%tries/en/Guide.astro'' @ [CHR 0x27]),
             start = 41, end' = 67, cnotes = Undefined\<rparr>]
   \<and> localizeUrl ''./entry.js'' = ''./%%locale%%try.js''
   \<and> localizeUrl ''~/entries/en/Guide.astro'' = ''~/%%locale%%tries/en/Guide.astro''"
  by (simp add: parseImports_def entry_imports_tree_def tree_defs import_change_def
      localizeUrl_def createPlaceholder_def shortLocale_def DEFAULT_LOCALE_def Let_def
      List.map_filter_def)

subsection \<open>The tree walk\<close>

text \<open>
  What the walk keeps: every node stays at its tag and span, a parent keeps the spans of
  its children, and the list of changes only grows at its end.
\<close>

lemma position_set_children [simp]: "position (set_children k n) = position n"
  by (cases n) simp
lemma ntype_set_children [simp]: "ntype (set_children k n) = ntype n"
  by (cases n) simp
lemma name_set_children [simp]: "name (set_children k n) = name n"
  by (cases n) simp
lemma children_set_children [simp]: "children (set_children k n) = Some k"
  by (cases n) simp
lemma position_set_url [simp]: "position (set_url u n) = position n"
  by (cases n) simp
lemma ntype_set_url [simp]: "ntype (set_url u n) = ntype n"
  by (cases n) simp

lemma parseAttribute_extends:
  "parseAttribute nm node changes = Inr changes1 \<Longrightarrow> \<exists>ext. changes1 = changes @ ext"
  by (auto simp: parseAttribute_def split: option.splits prod.splits)

lemma block_change_extends:
  "block_change node tx changes = Inr (node1, changes1) \<Longrightarrow> node1 = node \<and> (\<exists>ext. changes1 = changes @ ext)"
  by (auto simp: block_change_def split: option.splits prod.splits sum.splits)

lemma directive_content_change_extends:
  "directive_content_change node tx changes = Inr (node1, changes1) \<Longrightarrow> node1 = node \<and> (\<exists>ext. changes1 = changes @ ext)"
  by (auto simp: directive_content_change_def split: option.splits prod.splits sum.splits)

lemma parseNode_directive:
  "ntype node = ''containerDirective'' \<Longrightarrow>
   parseNode processor node changes root =
     (case children node of
        None \<Rightarrow> Inl TypeError
      | Some [] \<Rightarrow> Inl TypeError
      | Some (first # rest) \<Rightarrow>
          if directiveLabel first then
            (case directive_label_change node first of
               Inl e \<Rightarrow> Inl e
             | Inr label_change \<Rightarrow>
                 (case parseChildren processor (set_children rest node) (changes @ [label_change]) of
                    Inl e \<Rightarrow> Inl e
                  | Inr (node1, changes1, tx) \<Rightarrow> directive_content_change node1 tx changes1))
          else
            (case parseChildren processor node changes of
               Inl e \<Rightarrow> Inl e
             | Inr (node1, changes1, tx) \<Rightarrow> directive_content_change node1 tx changes1))"
  by (simp add: parseNode.simps)

lemma prefix_snoc: "prefix (a @ [x]) b \<Longrightarrow> prefix a b"
  by (rule append_prefixD)

lemma walk_preserves:
  "(\<forall>node1 changes1. parseNode processor node changes root = Inr (node1, changes1) \<longrightarrow>
      same_node node node1 \<and> prefix changes changes1)"
  "(\<forall>node1 changes1. parseChildrenAsRoot processor node changes = Inr (node1, changes1) \<longrightarrow>
      same_node node node1 \<and> prefix changes changes1)"
  "(\<forall>kids1 changes1. parseChildrenAsRoot_forEach processor kids changes = Inr (kids1, changes1) \<longrightarrow>
      map position kids1 = map position kids \<and> prefix changes changes1)"
  "(\<forall>node1 changes1 t. parseChildren processor node changes = Inr (node1, changes1, t) \<longrightarrow>
      same_node node node1 \<and> name node1 = name node
      \<and> map_option (map position) (children node1) = map_option (map position) (children node)
      \<and> prefix changes changes1)"
  "(\<forall>kids1 changes1 t. parseChildren_loop processor kids changes tx = Inr (kids1, changes1, t) \<longrightarrow>
      map position kids1 = map position kids \<and> prefix changes changes1)"
proof (induction processor node changes root and processor node changes and processor kids changes
         and processor node changes and processor kids changes tx
       rule: parseNode_parseChildrenAsRoot_parseChildrenAsRoot_forEach_parseChildren_parseChildren_loop.induct)
  case (1 processor node changes root)
  show ?case
  proof (intro allI impI)
    fix node1 changes1
    assume r: "parseNode processor node changes root = Inr (node1, changes1)"
    show "same_node node node1 \<and> prefix changes changes1"
    proof (cases "ntype node = ''link''")
      case True
      with r show ?thesis
        by (auto simp: parseNode.simps same_node_def split: option.splits)
    next
      case nl: False
      show ?thesis
      proof (cases "ntype node = ''mdxJsxFlowElement''")
        case True
        show ?thesis
        proof (cases "name node = Str ''RelativeLink''")
          case rl: True
          with r True show ?thesis
            by (auto simp: parseNode.simps same_node_def prefix_def split: sum.splits dest: parseAttribute_extends)
        next
          case nrl: False
          show ?thesis
          proof (cases "name node = Str ''AccordionItem''")
            case ai: True
            from r True ai obtain b where b: "parseAttribute ''title'' node changes = Inr b"
              and r2: "parseChildrenAsRoot processor node b = Inr (node1, changes1)"
              by (auto simp: parseNode.simps split: sum.splits)
            from "1.IH"(1)[OF nl True nrl ai b] r2 have "same_node node node1 \<and> prefix b changes1" by blast
            moreover have "prefix changes b" using parseAttribute_extends[OF b] by (simp add: prefix_def)
            ultimately show ?thesis by (blast intro: prefix_order.trans)
          next
            case False
            with r True nrl show ?thesis by (auto simp: parseNode.simps same_node_def)
          qed
        qed
      next
        case nj: False
        show ?thesis
        proof (cases "ntype node = ''image''")
          case True
          with r show ?thesis by (auto simp: parseNode.simps same_node_def)
        next
          case ni: False
          show ?thesis
          proof (cases "ntype node = ''list'' \<or> ntype node = ''listItem'' \<or> ntype node = ''table'' \<or> ntype node = ''tableRow''")
            case True
            from r nl nj ni True have r2: "parseChildrenAsRoot processor node changes = Inr (node1, changes1)"
              by (subst (asm) parseNode.simps) (simp only: if_False if_True)
            from "1.IH"(2)[OF nl nj ni True] r2 show ?thesis by blast
          next
            case nls: False
            show ?thesis
            proof (cases "ntype node = ''heading'' \<or> ntype node = ''paragraph'' \<or> ntype node = ''tableCell''")
              case True
              from r nl nj ni nls True have r2:
                "(case parseChildren processor node changes of Inl e \<Rightarrow> Inl e
                  | Inr (node1, changes1, tx) \<Rightarrow>
                      if root then block_change node1 tx changes1 else Inr (node1, changes1)) = Inr (node1, changes1)"
                by (subst (asm) parseNode.simps) (simp only: if_False if_True)
              then obtain n2 c2 t2 where pc: "parseChildren processor node changes = Inr (n2, c2, t2)"
                and fin: "(if root then block_change n2 t2 c2 else Inr (n2, c2)) = Inr (node1, changes1)"
                by (auto split: sum.splits)
              from "1.IH"(3)[OF nl nj ni nls True] pc have k: "same_node node n2" "prefix changes c2" by blast+
              from fin have "node1 = n2 \<and> prefix c2 changes1"
                by (auto simp: prefix_def split: if_splits dest: block_change_extends)
              with k show ?thesis by (blast intro: prefix_order.trans)
            next
              case nb: False
              show ?thesis
              proof (cases "ntype node = ''containerDirective''")
                case False
                with r nl nj ni nls nb show ?thesis
                  by (subst (asm) parseNode.simps) (simp add: same_node_def)
              next
                case cd: True
                from r have r2:
                  "(case children node of None \<Rightarrow> Inl TypeError | Some [] \<Rightarrow> Inl TypeError
                    | Some (first # rest) \<Rightarrow>
                      if directiveLabel first then
                        (case directive_label_change node first of Inl e \<Rightarrow> Inl e
                         | Inr label_change \<Rightarrow>
                            (case parseChildren processor (set_children rest node) (changes @ [label_change]) of
                               Inl e \<Rightarrow> Inl e
                             | Inr (node1, changes1, tx) \<Rightarrow> directive_content_change node1 tx changes1))
                      else
                        (case parseChildren processor node changes of Inl e \<Rightarrow> Inl e
                         | Inr (node1, changes1, tx) \<Rightarrow> directive_content_change node1 tx changes1))
                   = Inr (node1, changes1)"
                  unfolding parseNode_directive[OF cd] .
                then obtain first rest where ch: "children node = Some (first # rest)"
                  by (cases "children node") (auto split: list.splits)
                show ?thesis
                proof (cases "directiveLabel first")
                  case True
                  from r2 ch True obtain lc n2 c2 t2 where
                    lc: "directive_label_change node first = Inr lc" and
                    pc: "parseChildren processor (set_children rest node) (changes @ [lc]) = Inr (n2, c2, t2)" and
                    fin: "directive_content_change n2 t2 c2 = Inr (node1, changes1)"
                    by (auto split: sum.splits)
                  from "1.IH"(4)[OF nl nj ni nls nb cd ch refl True lc] pc
                  have k: "same_node (set_children rest node) n2" "prefix (changes @ [lc]) c2" by blast+
                  from directive_content_change_extends[OF fin] have "node1 = n2" "prefix c2 changes1"
                    by (auto simp: prefix_def)
                  have "prefix changes c2" using k(2) by (rule prefix_snoc)
                  then have "prefix changes changes1" using \<open>prefix c2 changes1\<close> by (rule prefix_order.trans)
                  moreover have "same_node node node1" using k(1) \<open>node1 = n2\<close> by (simp add: same_node_def)
                  ultimately show ?thesis by simp
                next
                  case False
                  from r2 ch False obtain n2 c2 t2 where
                    pc: "parseChildren processor node changes = Inr (n2, c2, t2)" and
                    fin: "directive_content_change n2 t2 c2 = Inr (node1, changes1)"
                    by (auto split: sum.splits)
                  from "1.IH"(5)[OF nl nj ni nls nb cd ch refl False] pc
                  have k: "same_node node n2" "prefix changes c2" by blast+
                  from directive_content_change_extends[OF fin] have "node1 = n2" "prefix c2 changes1"
                    by (auto simp: prefix_def)
                  have "prefix changes changes1" using k(2) \<open>prefix c2 changes1\<close> by (rule prefix_order.trans)
                  then show ?thesis using k(1) \<open>node1 = n2\<close> by simp
                qed
              qed
            qed
          qed
        qed
      qed
    qed
  qed
next
  case (2 processor node changes)
  show ?case
  proof (intro allI impI)
    fix node1 changes1
    assume r: "parseChildrenAsRoot processor node changes = Inr (node1, changes1)"
    then obtain kids where ch: "children node = Some kids"
      by (cases "children node") (simp_all add: parseChildrenAsRoot.simps)
    from r ch obtain kids1 where
      fe: "parseChildrenAsRoot_forEach processor kids changes = Inr (kids1, changes1)" and
      n1: "node1 = set_children kids1 node"
      by (auto simp: parseChildrenAsRoot.simps split: sum.splits)
    from "2.IH"[OF ch] fe have "prefix changes changes1" by blast
    then show "same_node node node1 \<and> prefix changes changes1"
      using n1 by (simp add: same_node_def)
  qed
next
  case (3 processor changes)
  show ?case by simp
next
  case (4 processor child rest changes)
  show ?case
  proof (intro allI impI)
    fix kids1 changes1
    assume r: "parseChildrenAsRoot_forEach processor (child # rest) changes = Inr (kids1, changes1)"
    then obtain c1 ch1 r1 where a: "parseNode processor child changes True = Inr (c1, ch1)"
      and b: "parseChildrenAsRoot_forEach processor rest ch1 = Inr (r1, changes1)" and k: "kids1 = c1 # r1"
      by (auto split: sum.splits)
    from "4.IH"(1) a have k1: "same_node child c1" and e1: "prefix changes ch1" by blast+
    from "4.IH"(2)[OF a refl] b have k2: "map position r1 = map position rest" and e2: "prefix ch1 changes1" by blast+
    have "prefix changes changes1" using e1 e2 by (rule prefix_order.trans)
    then show "map position kids1 = map position (child # rest) \<and> prefix changes changes1"
      using k k1 k2 by (simp add: same_node_def)
  qed
next
  case (5 processor node changes)
  show ?case
  proof (intro allI impI)
    fix node1 changes1 t
    assume r: "parseChildren processor node changes = Inr (node1, changes1, t)"
    show "same_node node node1 \<and> name node1 = name node
      \<and> map_option (map position) (children node1) = map_option (map position) (children node)
      \<and> prefix changes changes1"
    proof (cases "children node")
      case None
      with r show ?thesis by (simp add: parseChildren.simps same_node_def)
    next
      case (Some kids)
      with r obtain kids1 tx1 where
        lp: "parseChildren_loop processor kids changes [] = Inr (kids1, changes1, tx1)" and
        n1: "node1 = set_children kids1 node"
        by (auto simp: parseChildren.simps split: sum.splits)
      from "5.IH"[OF Some] lp have "map position kids1 = map position kids" "prefix changes changes1"
        by blast+
      then show ?thesis using n1 Some by (simp add: same_node_def)
    qed
  qed
next
  case (6 processor changes tx)
  show ?case by simp
next
  case (7 processor child rest changes tx)
  show ?case
  proof (intro allI impI)
    fix kids1 changes1 t
    assume r: "parseChildren_loop processor (child # rest) changes tx = Inr (kids1, changes1, t)"
    then obtain c1 ch1 where a: "parseNode processor child changes False = Inr (c1, ch1)"
      by (cases "parseNode processor child changes False") auto
    from r a obtain r1 where
      b: "parseChildren_loop processor rest ch1
            (if ntype c1 \<noteq> ''list''
             then (if ntype c1 = ''code'' then tx @ [CHR 0x0A] else tx) @ chomp (processor c1)
             else (if ntype c1 = ''code'' then tx @ [CHR 0x0A] else tx)) = Inr (r1, changes1, t)"
      and k: "kids1 = c1 # r1"
      by (auto simp: Let_def split: sum.splits)
    from "7.IH"(1) a have k1: "same_node child c1" and e1: "prefix changes ch1" by blast+
    from "7.IH"(2)[OF a refl refl refl] b
    have k2: "map position r1 = map position rest" and e2: "prefix ch1 changes1" by blast+
    have "prefix changes changes1" using e1 e2 by (rule prefix_order.trans)
    then show "map position kids1 = map position (child # rest) \<and> prefix changes changes1"
      using k k1 k2 by (simp add: same_node_def)
  qed
qed

lemmas walk_simps =
  parseNode.simps parseChildren.simps parseChildrenAsRoot.simps
  block_change_def directive_content_change_def directive_label_change_def children_span_def
  parseAttribute_def Let_def

lemma directive_label_change_error:
  "directive_label_change node first = Inl e \<Longrightarrow> e = TypeError"
  by (auto simp: directive_label_change_def split: option.splits list.splits prod.splits)

lemma children_span_cong:
  assumes "map position a = map position b"
  shows "children_span a = children_span b"
proof (cases a)
  case Nil
  then show ?thesis using assms by simp
next
  case (Cons x xs)
  then obtain y ys where b: "b = y # ys" using assms by (cases b) auto
  have px: "position x = position y" using assms Cons b by simp
  have "position (last a) = position (last b)"
    using assms Cons b by (metis last_map list.distinct(1))
  then have pl: "position (last (x # xs)) = position (last (y # ys))"
    unfolding Cons b .
  show ?thesis unfolding Cons b children_span_def list.case px pl ..
qed

lemma children_span_ends:
  assumes "rest \<noteq> []" "position (hd rest) = Some (s, s')" "position (last rest) = Some (e', e)"
  shows "children_span rest = Inr (s, e)"
  using assms by (cases rest) (auto simp: children_span_def)

lemma parseChildren_no_children:
  "parseChildren processor (set_children [] node) changes
     = Inr (set_children [] (set_children [] node), changes, Str [])"
  by (simp add: parseChildren.simps)

lemma directive_content_change_result:
  assumes "directive_content_change n2 tx c2 = Inr (node1, changes1)"
  shows "\<exists>kids1 s e. node1 = n2 \<and> children node1 = Some kids1 \<and> kids1 \<noteq> []
           \<and> children_span kids1 = Inr (s, e)
           \<and> changes1 = c2 @ [\<lparr>ctype = Undefined, ctext = tx, start = s, end' = e,
                  cnotes = Str (''content for the '' @ [CHR 0x22] @ js_string_of (name n2)
                                @ [CHR 0x22] @ '' callout'')\<rparr>]"
proof -
  from assms obtain kids1 where k: "children n2 = Some kids1"
    by (cases "children n2") (simp_all add: directive_content_change_def)
  from assms k obtain s e where sp: "children_span kids1 = Inr (s, e)"
    by (cases "children_span kids1") (auto simp: directive_content_change_def)
  have ne: "kids1 \<noteq> []" using sp by (auto simp: children_span_def)
  from assms k sp show ?thesis using ne by (auto simp: directive_content_change_def)
qed

lemma strings_callout_list:
  "strings processor callout_list_tree
     = Inr [\<lparr>ctype = Undefined,
             ctext = Str (chomp (processor (literal_node ''text'' 16 20 ''item''))),
             start = 16, end' = 20, cnotes = Str ''''\<rparr>,
            \<lparr>ctype = Undefined,
             ctext = Str (chomp (processor
                       (parent_node ''paragraph'' 7 12 [literal_node ''text'' 7 12 ''Intro'']))),
             start = 7, end' = 20,
             cnotes = Str (''content for the '' @ [CHR 0x22] @ ''tip'' @ [CHR 0x22] @ '' callout'')\<rparr>]"
  by (simp add: strings_def parseFrontmatter_def parseImports_def parseContent_def
      callout_list_tree_def tree_defs TOP_LEVEL_NODE_TYPES_def List.map_filter_def walk_simps)

text \<open>
  C7, on the callout that holds a paragraph and a list. The walk emits a change for the
  paragraph of the list item, at 16 to 20, and then the change for the content of the
  callout, from the start of its first child to the end of its last, at 7 to 20. Both
  spans are valid for the source and the second contains the first: the emitted list
  is not free of overlaps.
\<close>

theorem strings_callout_list_overlap:
  "strings processor callout_list_tree
     = Inr [\<lparr>ctype = Undefined,
             ctext = Str (chomp (processor (literal_node ''text'' 16 20 ''item''))),
             start = 16, end' = 20, cnotes = Str ''''\<rparr>,
            \<lparr>ctype = Undefined,
             ctext = Str (chomp (processor
                       (parent_node ''paragraph'' 7 12 [literal_node ''text'' 7 12 ''Intro'']))),
             start = 7, end' = 20,
             cnotes = Str (''content for the '' @ [CHR 0x22] @ ''tip'' @ [CHR 0x22] @ '' callout'')\<rparr>]
   \<and> (case strings processor callout_list_tree of
         Inl e \<Rightarrow> False
       | Inr cs \<Rightarrow> list_all (validSpan callout_list_source) cs \<and> \<not> nonOverlapping cs)"
  by (simp add: strings_callout_list validSpan_def disjointSpans_def callout_list_source_def)

text \<open>
  C8, as the code has it. For a directive container whose first child carries the label
  marker, has a first child of its own and a span, and which has at least one further
  child, the first and the last of them with spans: if the walk of the remaining
  children (the node without the label child) succeeds, the walk of the node succeeds.
  It has first emitted the label change, whose span is the label child's span narrowed
  by one on each side and whose notes name the directive; then whatever the remaining
  children emit; and last the content change, from the start of the first remaining
  child to the end of the last, with the accumulated text and notes that name the
  directive. The node it returns holds the remaining children only.
\<close>

theorem parseNode_directive_label:
  assumes "ntype node = ''containerDirective''"
      and "children node = Some (first # rest)"
      and "directiveLabel first"
      and "children first = Some (label # others)"
      and "position first = Some (ls, le)"
      and "rest \<noteq> []"
      and "position (hd rest) = Some (s, s')"
      and "position (last rest) = Some (e', e)"
      and "parseChildren processor (set_children rest node)
             (changes @ [\<lparr>ctype = Str ''containerDirectiveLabel'', ctext = nvalue label,
                           start = ls + 1, end' = le - 1,
                           cnotes = Str (''title for the '' @ [CHR 0x22] @ js_string_of (name node)
                                         @ [CHR 0x22] @ '' callout'')\<rparr>])
           = Inr (node1, changes1, tx)"
  shows "parseNode processor node changes root
           = Inr (node1, changes1 @ [\<lparr>ctype = Undefined, ctext = tx, start = s, end' = e,
                    cnotes = Str (''content for the '' @ [CHR 0x22] @ js_string_of (name node)
                                  @ [CHR 0x22] @ '' callout'')\<rparr>])
         \<and> prefix (changes @ [\<lparr>ctype = Str ''containerDirectiveLabel'', ctext = nvalue label,
                           start = ls + 1, end' = le - 1,
                           cnotes = Str (''title for the '' @ [CHR 0x22] @ js_string_of (name node)
                                         @ [CHR 0x22] @ '' callout'')\<rparr>]) changes1
         \<and> (\<exists>kids1. children node1 = Some kids1 \<and> map position kids1 = map position rest)"
proof -
  let ?lc = "\<lparr>ctype = Str ''containerDirectiveLabel'', ctext = nvalue label,
                           start = ls + 1, end' = le - 1,
                           cnotes = Str (''title for the '' @ [CHR 0x22] @ js_string_of (name node)
                                         @ [CHR 0x22] @ '' callout'')\<rparr>"
  have lc: "directive_label_change node first = Inr ?lc"
    using assms(4,5) by (simp add: directive_label_change_def)
  from walk_preserves(4)[of processor "set_children rest node" "changes @ [?lc]"] assms(9)
  have nm: "name node1 = name node"
    and kp: "map_option (map position) (children node1) = Some (map position rest)"
    and pf: "prefix (changes @ [?lc]) changes1"
    by auto
  from kp obtain kids1 where k1: "children node1 = Some kids1"
    and mp: "map position kids1 = map position rest"
    by (cases "children node1") auto
  have "children_span kids1 = children_span rest" using mp by (rule children_span_cong)
  also have "\<dots> = Inr (s, e)" using assms(6,7,8) by (rule children_span_ends)
  finally have sp: "children_span kids1 = Inr (s, e)" .
  have dc: "directive_content_change node1 tx changes1
              = Inr (node1, changes1 @ [\<lparr>ctype = Undefined, ctext = tx, start = s, end' = e,
                    cnotes = Str (''content for the '' @ [CHR 0x22] @ js_string_of (name node)
                                  @ [CHR 0x22] @ '' callout'')\<rparr>])"
    using k1 sp nm by (simp add: directive_content_change_def)
  have "parseNode processor node changes root
           = Inr (node1, changes1 @ [\<lparr>ctype = Undefined, ctext = tx, start = s, end' = e,
                    cnotes = Str (''content for the '' @ [CHR 0x22] @ js_string_of (name node)
                                  @ [CHR 0x22] @ '' callout'')\<rparr>])"
    unfolding parseNode_directive[OF assms(1)] using assms(2,3) lc assms(9) dc by simp
  then show ?thesis using pf k1 mp by blast
qed

lemma labelled_callout_children:
  "parseChildren plain_text
     (set_children [parent_node ''paragraph'' 17 24 [literal_node ''text'' 17 24 ''Read on'']]
        labelled_callout)
     [\<lparr>ctype = Str ''containerDirectiveLabel'', ctext = Str ''See also'', start = 7, end' = 15,
       cnotes = Str (''title for the '' @ [CHR 0x22] @ ''tip'' @ [CHR 0x22] @ '' callout'')\<rparr>]
   = Inr (directive_node ''tip'' 0 28
            [parent_node ''paragraph'' 17 24 [literal_node ''text'' 17 24 ''Read on'']],
          [\<lparr>ctype = Str ''containerDirectiveLabel'', ctext = Str ''See also'', start = 7, end' = 15,
            cnotes = Str (''title for the '' @ [CHR 0x22] @ ''tip'' @ [CHR 0x22] @ '' callout'')\<rparr>],
          Str ''Read on'')"
  by (simp add: labelled_callout_def tree_defs walk_simps chomp_def)

text \<open>The callout with a label and a paragraph: two changes.\<close>

theorem parseNode_directive_label_witness:
  "parseNode plain_text labelled_callout [] True
     = Inr (directive_node ''tip'' 0 28
              [parent_node ''paragraph'' 17 24 [literal_node ''text'' 17 24 ''Read on'']],
            [\<lparr>ctype = Str ''containerDirectiveLabel'', ctext = Str ''See also'',
              start = 7, end' = 15,
              cnotes = Str (''title for the '' @ [CHR 0x22] @ ''tip'' @ [CHR 0x22] @ '' callout'')\<rparr>,
             \<lparr>ctype = Undefined, ctext = Str ''Read on'', start = 17, end' = 24,
              cnotes = Str (''content for the '' @ [CHR 0x22] @ ''tip'' @ [CHR 0x22] @ '' callout'')\<rparr>])"
proof -
  let ?lab = "label_node 6 16 [literal_node ''text'' 7 15 ''See also'']"
  let ?par = "parent_node ''paragraph'' 17 24 [literal_node ''text'' 17 24 ''Read on'']"
  have a1: "ntype labelled_callout = ''containerDirective''"
    by (simp add: labelled_callout_def tree_defs)
  have a2: "children labelled_callout = Some (?lab # [?par])"
    by (simp add: labelled_callout_def tree_defs)
  have a3: "directiveLabel ?lab" by (simp add: tree_defs)
  have a4: "children ?lab = Some (literal_node ''text'' 7 15 ''See also'' # [])"
    by (simp add: tree_defs)
  have a5: "position ?lab = Some (6, 16)" by (simp add: tree_defs)
  have a6: "[?par] \<noteq> []" by simp
  have a7: "position (hd [?par]) = Some (17, 24)" by (simp add: tree_defs)
  have a8: "position (last [?par]) = Some (17, 24)" by (simp add: tree_defs)
  have a9: "parseChildren plain_text (set_children [?par] labelled_callout)
             ([] @ [\<lparr>ctype = Str ''containerDirectiveLabel'',
                     ctext = nvalue (literal_node ''text'' 7 15 ''See also''),
                     start = 6 + 1, end' = 16 - 1,
                     cnotes = Str (''title for the '' @ [CHR 0x22]
                                   @ js_string_of (name labelled_callout)
                                   @ [CHR 0x22] @ '' callout'')\<rparr>])
           = Inr (directive_node ''tip'' 0 28 [?par],
                  [\<lparr>ctype = Str ''containerDirectiveLabel'', ctext = Str ''See also'',
                    start = 7, end' = 15,
                    cnotes = Str (''title for the '' @ [CHR 0x22] @ ''tip'' @ [CHR 0x22]
                                  @ '' callout'')\<rparr>],
                  Str ''Read on'')"
    using labelled_callout_children by (simp add: labelled_callout_def tree_defs)
  from parseNode_directive_label[OF a1 a2 a3 a4 a5 a6 a7 a8 a9, of True]
  show ?thesis by (simp add: labelled_callout_def tree_defs)
qed

text \<open>
  C8 as stated fails on a callout that holds only its label: no change is emitted, the
  walk of the node throws and with it the walk of the document.
\<close>

theorem parseNode_directive_label_counterexample:
  "ntype label_only_callout = ''containerDirective''
   \<and> children label_only_callout = Some [label_node 7 18 [literal_node ''text'' 8 17 ''Heads up!'']]
   \<and> directiveLabel (label_node 7 18 [literal_node ''text'' 8 17 ''Heads up!''])
   \<and> parseNode plain_text label_only_callout [] True = Inl TypeError
   \<and> parseContent plain_text (parent_node ''root'' 0 22 [label_only_callout]) = Inl TypeError"
  by (simp add: label_only_callout_def tree_defs walk_simps parseContent_def
      TOP_LEVEL_NODE_TYPES_def)

text \<open>
  The walk on plain text: a \<open>text\<close> leaf comes back as it is, and so does a paragraph of
  such leaves when it is not walked as a root; the children of a parent that holds only
  such paragraphs come back as they are, with their serialized texts joined.
\<close>

lemma set_children_same: "children n = Some kids \<Longrightarrow> set_children kids n = n"
  by (cases n) simp

lemma parseNode_text:
  "ntype n = ''text'' \<Longrightarrow> parseNode processor n changes root = Inr (n, changes)"
  by (simp add: parseNode.simps)

lemma parseChildren_loop_texts:
  "list_all (\<lambda>k. ntype k = ''text'') ks \<Longrightarrow>
   parseChildren_loop processor ks changes tx
     = Inr (ks, changes, tx @ concat (map (\<lambda>k. chomp (processor k)) ks))"
  by (induction ks arbitrary: tx) (simp_all add: parseNode_text)

lemma parseNode_plain_paragraph:
  assumes "plain_paragraph n"
  shows "parseNode processor n changes False = Inr (n, changes)"
proof -
  from assms obtain ks where nt: "ntype n = ''paragraph''" and ch: "children n = Some ks"
    and tx: "list_all (\<lambda>k. ntype k = ''text'') ks"
    by (auto simp: plain_paragraph_def split: option.splits)
  have "parseChildren processor n changes
          = Inr (n, changes, Str (concat (map (\<lambda>k. chomp (processor k)) ks)))"
    using ch tx by (simp add: parseChildren.simps parseChildren_loop_texts set_children_same)
  then show ?thesis using nt by (simp add: parseNode.simps)
qed

lemma parseChildren_loop_paragraphs:
  "list_all plain_paragraph ks \<Longrightarrow>
   parseChildren_loop processor ks changes tx
     = Inr (ks, changes, tx @ concat (map (\<lambda>k. chomp (processor k)) ks))"
proof (induction ks arbitrary: tx)
  case Nil
  then show ?case by simp
next
  case (Cons k ks)
  then have p: "plain_paragraph k" and r: "list_all plain_paragraph ks" by simp_all
  have nt: "ntype k = ''paragraph''" using p by (simp add: plain_paragraph_def)
  show ?case
    using parseNode_plain_paragraph[OF p, of processor changes] Cons.IH[OF r] nt
    by simp
qed

lemma parseNode_plain_callout:
  assumes cd: "ntype node = ''containerDirective''"
      and ch: "children node = Some kids"
      and ne: "kids \<noteq> []"
      and pp: "list_all plain_paragraph kids"
      and nl: "\<not> directiveLabel (hd kids)"
      and ps: "position (hd kids) = Some (s, s')"
      and pe: "position (last kids) = Some (e', e)"
  shows "parseNode processor node changes root
           = Inr (node, changes @
               [\<lparr>ctype = Undefined,
                 ctext = Str (concat (map (\<lambda>k. chomp (processor k)) kids)),
                 start = s, end' = e,
                 cnotes = Str (''content for the '' @ [CHR 0x22] @ js_string_of (name node)
                               @ [CHR 0x22] @ '' callout'')\<rparr>])"
proof -
  obtain first rest where k: "kids = first # rest" using ne by (cases kids) auto
  have pc: "parseChildren processor node changes
              = Inr (node, changes, Str (concat (map (\<lambda>k. chomp (processor k)) kids)))"
    using ch pp by (simp add: parseChildren.simps parseChildren_loop_paragraphs set_children_same)
  have sp: "children_span kids = Inr (s, e)" using ne ps pe by (rule children_span_ends)
  have dc: "directive_content_change node (Str (concat (map (\<lambda>k. chomp (processor k)) kids))) changes
              = Inr (node, changes @
               [\<lparr>ctype = Undefined,
                 ctext = Str (concat (map (\<lambda>k. chomp (processor k)) kids)),
                 start = s, end' = e,
                 cnotes = Str (''content for the '' @ [CHR 0x22] @ js_string_of (name node)
                               @ [CHR 0x22] @ '' callout'')\<rparr>])"
    using ch sp by (simp add: directive_content_change_def)
  show ?thesis
    unfolding parseNode_directive[OF cd] using ch k nl pc dc by simp
qed

lemma parseNode_unlabelled:
  assumes cd: "ntype node = ''containerDirective''"
      and ch: "children node = Some (first # rest)"
      and nl: "\<not> directiveLabel first"
      and pc: "parseChildren processor node changes = Inr (node1, changes1, tx)"
  shows "parseNode processor node changes root
           = (case position first of
                None \<Rightarrow> Inl TypeError
              | Some (s, s') \<Rightarrow>
                  (case position (last (first # rest)) of
                     None \<Rightarrow> Inl TypeError
                   | Some (e', e) \<Rightarrow>
                       Inr (node1, changes1 @
                         [\<lparr>ctype = Undefined, ctext = tx, start = s, end' = e,
                           cnotes = Str (''content for the '' @ [CHR 0x22]
                                         @ js_string_of (name node)
                                         @ [CHR 0x22] @ '' callout'')\<rparr>])))"
proof -
  from walk_preserves(4)[of processor node changes] pc ch
  have nm: "name node1 = name node"
    and kp: "map_option (map position) (children node1) = Some (map position (first # rest))"
    by auto
  from kp obtain kids1 where k1: "children node1 = Some kids1"
    and mp: "map position kids1 = map position (first # rest)"
    by (cases "children node1") auto
  have sp: "children_span kids1 = children_span (first # rest)"
    using mp by (rule children_span_cong)
  have "parseNode processor node changes root = directive_content_change node1 tx changes1"
    unfolding parseNode_directive[OF cd] using ch nl pc by simp
  also have "\<dots> = (case children_span (first # rest) of
                       Inl e \<Rightarrow> Inl e
                     | Inr (s, e) \<Rightarrow>
                         Inr (node1, changes1 @
                           [\<lparr>ctype = Undefined, ctext = tx, start = s, end' = e,
                             cnotes = Str (''content for the '' @ [CHR 0x22]
                                           @ js_string_of (name node)
                                           @ [CHR 0x22] @ '' callout'')\<rparr>]))"
    using k1 sp nm by (simp add: directive_content_change_def split: sum.splits prod.splits)
  finally show ?thesis
    by (simp add: children_span_def split: option.splits prod.splits del: last.simps)
qed

lemma parseNode_labelled:
  assumes cd: "ntype node = ''containerDirective''"
      and ch: "children node = Some (first # rest)"
      and lb: "directiveLabel first"
      and ne: "rest \<noteq> []"
      and lc: "directive_label_change node first = Inr lc"
      and pc: "parseChildren processor (set_children rest node) (changes @ [lc])
                 = Inr (node1, changes1, tx)"
  shows "parseNode processor node changes root
           = (case position (hd rest) of
                None \<Rightarrow> Inl TypeError
              | Some (s, s') \<Rightarrow>
                  (case position (last rest) of
                     None \<Rightarrow> Inl TypeError
                   | Some (e', e) \<Rightarrow>
                       Inr (node1, changes1 @
                         [\<lparr>ctype = Undefined, ctext = tx, start = s, end' = e,
                           cnotes = Str (''content for the '' @ [CHR 0x22]
                                         @ js_string_of (name node)
                                         @ [CHR 0x22] @ '' callout'')\<rparr>])))"
proof -
  from walk_preserves(4)[of processor "set_children rest node" "changes @ [lc]"] pc
  have nm: "name node1 = name node"
    and kp: "map_option (map position) (children node1) = Some (map position rest)"
    by auto
  from kp obtain kids1 where k1: "children node1 = Some kids1"
    and mp: "map position kids1 = map position rest"
    by (cases "children node1") auto
  have sp: "children_span kids1 = children_span rest"
    using mp by (rule children_span_cong)
  obtain r rs where rr: "rest = r # rs" using ne by (cases rest) auto
  have "parseNode processor node changes root = directive_content_change node1 tx changes1"
    unfolding parseNode_directive[OF cd] using ch lb lc pc by simp
  also have "\<dots> = (case children_span rest of
                       Inl e \<Rightarrow> Inl e
                     | Inr (s, e) \<Rightarrow>
                         Inr (node1, changes1 @
                           [\<lparr>ctype = Undefined, ctext = tx, start = s, end' = e,
                             cnotes = Str (''content for the '' @ [CHR 0x22]
                                           @ js_string_of (name node)
                                           @ [CHR 0x22] @ '' callout'')\<rparr>]))"
    using k1 sp nm by (simp add: directive_content_change_def split: sum.splits prod.splits)
  finally show ?thesis
    using rr by (simp add: children_span_def split: option.splits prod.splits del: last.simps)
qed

text \<open>
  C10. On a directive container the walk fails with a \<open>TypeError\<close> when the children
  are empty and when the only child is the label; and whenever it succeeds, with or
  without a label and whatever \<open>root\<close> is, the last change it has emitted is the content
  change of the directive, spanning the children that remain, of which there is at
  least one. It does succeed: without a label, once the walk of the children has
  succeeded, the walk of the node reads the position of the first child and of the
  last, fails with a \<open>TypeError\<close> when one of the two is missing, and otherwise returns
  what the children have emitted followed by the content change, from the start of the
  first child to the end of the last. With a label and at least one further child the
  same holds of the children that remain after the label. In particular the walk of a
  directive without a label whose children are paragraphs of plain text, the first and
  the last with a position, succeeds whatever \<open>root\<close> is, returns the node as it was and
  appends exactly one change, the content change.
\<close>

theorem parseNode_directive_requires_child:
  "ntype node = ''containerDirective'' \<longrightarrow>
     (children node = Some [] \<longrightarrow> parseNode processor node changes root = Inl TypeError)
   \<and> (children node = Some [first] \<and> directiveLabel first
        \<longrightarrow> parseNode processor node changes root = Inl TypeError)
   \<and> (\<forall>node1 changes1. parseNode processor node changes root = Inr (node1, changes1) \<longrightarrow>
        (\<exists>kids1 tx s e earlier.
            children node1 = Some kids1 \<and> kids1 \<noteq> [] \<and> children_span kids1 = Inr (s, e)
          \<and> changes1 = earlier @ [\<lparr>ctype = Undefined, ctext = tx, start = s, end' = e,
                 cnotes = Str (''content for the '' @ [CHR 0x22] @ js_string_of (name node)
                               @ [CHR 0x22] @ '' callout'')\<rparr>]))
   \<and> (\<forall>kid rest node1 changes1 tx.
          children node = Some (kid # rest) \<and> \<not> directiveLabel kid
        \<and> parseChildren processor node changes = Inr (node1, changes1, tx) \<longrightarrow>
        parseNode processor node changes root
          = (case position kid of
               None \<Rightarrow> Inl TypeError
             | Some (s, s') \<Rightarrow>
                 (case position (last (kid # rest)) of
                    None \<Rightarrow> Inl TypeError
                  | Some (e', e) \<Rightarrow>
                      Inr (node1, changes1 @
                        [\<lparr>ctype = Undefined, ctext = tx, start = s, end' = e,
                          cnotes = Str (''content for the '' @ [CHR 0x22]
                                        @ js_string_of (name node)
                                        @ [CHR 0x22] @ '' callout'')\<rparr>]))))
   \<and> (\<forall>kid rest lc node1 changes1 tx.
          children node = Some (kid # rest) \<and> directiveLabel kid \<and> rest \<noteq> []
        \<and> directive_label_change node kid = Inr lc
        \<and> parseChildren processor (set_children rest node) (changes @ [lc])
            = Inr (node1, changes1, tx) \<longrightarrow>
        parseNode processor node changes root
          = (case position (hd rest) of
               None \<Rightarrow> Inl TypeError
             | Some (s, s') \<Rightarrow>
                 (case position (last rest) of
                    None \<Rightarrow> Inl TypeError
                  | Some (e', e) \<Rightarrow>
                      Inr (node1, changes1 @
                        [\<lparr>ctype = Undefined, ctext = tx, start = s, end' = e,
                          cnotes = Str (''content for the '' @ [CHR 0x22]
                                        @ js_string_of (name node)
                                        @ [CHR 0x22] @ '' callout'')\<rparr>]))))
   \<and> (\<forall>kids s s' e' e.
          children node = Some kids \<and> kids \<noteq> [] \<and> list_all plain_paragraph kids
        \<and> \<not> directiveLabel (hd kids)
        \<and> position (hd kids) = Some (s, s') \<and> position (last kids) = Some (e', e) \<longrightarrow>
        parseNode processor node changes root
          = Inr (node, changes @
              [\<lparr>ctype = Undefined,
                ctext = Str (concat (map (\<lambda>k. chomp (processor k)) kids)),
                start = s, end' = e,
                cnotes = Str (''content for the '' @ [CHR 0x22] @ js_string_of (name node)
                              @ [CHR 0x22] @ '' callout'')\<rparr>]))"
proof (intro impI conjI allI)
  assume cd: "ntype node = ''containerDirective''" and "children node = Some []"
  then show "parseNode processor node changes root = Inl TypeError"
    by (simp add: parseNode_directive)
next
  assume cd: "ntype node = ''containerDirective''"
    and a: "children node = Some [first] \<and> directiveLabel first"
  show "parseNode processor node changes root = Inl TypeError"
  proof (cases "directive_label_change node first")
    case (Inl e)
    then have "e = TypeError" by (rule directive_label_change_error)
    with Inl a cd show ?thesis by (simp add: parseNode_directive)
  next
    case (Inr lc)
    with a cd show ?thesis
      by (simp add: parseNode_directive parseChildren_no_children
          directive_content_change_def children_span_def)
  qed
next
  fix node1 changes1
  assume cd: "ntype node = ''containerDirective''"
    and r: "parseNode processor node changes root = Inr (node1, changes1)"
  from r obtain first rest where ch: "children node = Some (first # rest)"
    unfolding parseNode_directive[OF cd]
    by (cases "children node") (auto split: list.splits)
  have "\<exists>n2 c2 tx. directive_content_change n2 tx c2 = Inr (node1, changes1) \<and> name n2 = name node"
  proof (cases "directiveLabel first")
    case True
    from r ch True obtain lc n2 c2 t2 where
      pc: "parseChildren processor (set_children rest node) (changes @ [lc]) = Inr (n2, c2, t2)" and
      fin: "directive_content_change n2 t2 c2 = Inr (node1, changes1)"
      unfolding parseNode_directive[OF cd] by (auto split: sum.splits)
    from walk_preserves(4)[of processor "set_children rest node" "changes @ [lc]"] pc
    have "name n2 = name node" by auto
    with fin show ?thesis by blast
  next
    case False
    from r ch False obtain n2 c2 t2 where
      pc: "parseChildren processor node changes = Inr (n2, c2, t2)" and
      fin: "directive_content_change n2 t2 c2 = Inr (node1, changes1)"
      unfolding parseNode_directive[OF cd] by (auto split: sum.splits)
    from walk_preserves(4)[of processor node changes] pc
    have "name n2 = name node" by auto
    with fin show ?thesis by blast
  qed
  then obtain n2 c2 tx where fin: "directive_content_change n2 tx c2 = Inr (node1, changes1)"
    and nm: "name n2 = name node" by blast
  from directive_content_change_result[OF fin] nm
  show "\<exists>kids1 tx s e earlier.
            children node1 = Some kids1 \<and> kids1 \<noteq> [] \<and> children_span kids1 = Inr (s, e)
          \<and> changes1 = earlier @ [\<lparr>ctype = Undefined, ctext = tx, start = s, end' = e,
                 cnotes = Str (''content for the '' @ [CHR 0x22] @ js_string_of (name node)
                               @ [CHR 0x22] @ '' callout'')\<rparr>]"
    by metis
next
  fix kid rest node1 changes1 tx
  assume cd: "ntype node = ''containerDirective''"
    and a: "children node = Some (kid # rest) \<and> \<not> directiveLabel kid
        \<and> parseChildren processor node changes = Inr (node1, changes1, tx)"
  from a have ch: "children node = Some (kid # rest)" and nl: "\<not> directiveLabel kid"
    and pc: "parseChildren processor node changes = Inr (node1, changes1, tx)" by simp_all
  show "parseNode processor node changes root
          = (case position kid of
               None \<Rightarrow> Inl TypeError
             | Some (s, s') \<Rightarrow>
                 (case position (last (kid # rest)) of
                    None \<Rightarrow> Inl TypeError
                  | Some (e', e) \<Rightarrow>
                      Inr (node1, changes1 @
                        [\<lparr>ctype = Undefined, ctext = tx, start = s, end' = e,
                          cnotes = Str (''content for the '' @ [CHR 0x22]
                                        @ js_string_of (name node)
                                        @ [CHR 0x22] @ '' callout'')\<rparr>])))"
    using cd ch nl pc by (rule parseNode_unlabelled)
next
  fix kid rest lc node1 changes1 tx
  assume cd: "ntype node = ''containerDirective''"
    and a: "children node = Some (kid # rest) \<and> directiveLabel kid \<and> rest \<noteq> []
        \<and> directive_label_change node kid = Inr lc
        \<and> parseChildren processor (set_children rest node) (changes @ [lc])
            = Inr (node1, changes1, tx)"
  from a have ch: "children node = Some (kid # rest)" and lb: "directiveLabel kid"
    and ne: "rest \<noteq> []" and lc: "directive_label_change node kid = Inr lc"
    and pc: "parseChildren processor (set_children rest node) (changes @ [lc])
            = Inr (node1, changes1, tx)" by simp_all
  show "parseNode processor node changes root
          = (case position (hd rest) of
               None \<Rightarrow> Inl TypeError
             | Some (s, s') \<Rightarrow>
                 (case position (last rest) of
                    None \<Rightarrow> Inl TypeError
                  | Some (e', e) \<Rightarrow>
                      Inr (node1, changes1 @
                        [\<lparr>ctype = Undefined, ctext = tx, start = s, end' = e,
                          cnotes = Str (''content for the '' @ [CHR 0x22]
                                        @ js_string_of (name node)
                                        @ [CHR 0x22] @ '' callout'')\<rparr>])))"
    using cd ch lb ne lc pc by (rule parseNode_labelled)
next
  fix kids s s' e' e
  assume cd: "ntype node = ''containerDirective''"
    and a: "children node = Some kids \<and> kids \<noteq> [] \<and> list_all plain_paragraph kids
        \<and> \<not> directiveLabel (hd kids)
        \<and> position (hd kids) = Some (s, s') \<and> position (last kids) = Some (e', e)"
  from a have ch: "children node = Some kids" and ne: "kids \<noteq> []"
    and pp: "list_all plain_paragraph kids" and nl: "\<not> directiveLabel (hd kids)"
    and ps: "position (hd kids) = Some (s, s')" and pe: "position (last kids) = Some (e', e)"
    by simp_all
  show "parseNode processor node changes root
          = Inr (node, changes @
              [\<lparr>ctype = Undefined,
                ctext = Str (concat (map (\<lambda>k. chomp (processor k)) kids)),
                start = s, end' = e,
                cnotes = Str (''content for the '' @ [CHR 0x22] @ js_string_of (name node)
                              @ [CHR 0x22] @ '' callout'')\<rparr>])"
    using cd ch ne pp nl ps pe by (rule parseNode_plain_callout)
qed

text \<open>
  An empty callout and a callout that holds only its label fail. The callout without a
  label gives one change, its content, walked as a root or not; the callout with a
  label gives the label change and then the content change.
\<close>

theorem parseNode_directive_requires_child_witness:
  "parseNode plain_text empty_callout [] True = Inl TypeError
   \<and> parseNode plain_text title_only_callout [] True = Inl TypeError
   \<and> parseNode plain_text plain_callout [] True
       = Inr (plain_callout,
              [\<lparr>ctype = Undefined, ctext = Str ''Read on'', start = 7, end' = 14,
                cnotes = Str (''content for the '' @ [CHR 0x22] @ ''tip'' @ [CHR 0x22] @ '' callout'')\<rparr>])
   \<and> parseNode plain_text plain_callout [] False
       = Inr (plain_callout,
              [\<lparr>ctype = Undefined, ctext = Str ''Read on'', start = 7, end' = 14,
                cnotes = Str (''content for the '' @ [CHR 0x22] @ ''tip'' @ [CHR 0x22] @ '' callout'')\<rparr>])
   \<and> parseNode plain_text labelled_callout [] False
       = Inr (directive_node ''tip'' 0 28
                [parent_node ''paragraph'' 17 24 [literal_node ''text'' 17 24 ''Read on'']],
              [\<lparr>ctype = Str ''containerDirectiveLabel'', ctext = Str ''See also'',
                start = 7, end' = 15,
                cnotes = Str (''title for the '' @ [CHR 0x22] @ ''tip'' @ [CHR 0x22] @ '' callout'')\<rparr>,
               \<lparr>ctype = Undefined, ctext = Str ''Read on'', start = 17, end' = 24,
                cnotes = Str (''content for the '' @ [CHR 0x22] @ ''tip'' @ [CHR 0x22] @ '' callout'')\<rparr>])"
proof -
  let ?lab = "label_node 6 16 [literal_node ''text'' 7 15 ''See also'']"
  let ?par = "parent_node ''paragraph'' 17 24 [literal_node ''text'' 17 24 ''Read on'']"
  let ?kid = "parent_node ''paragraph'' 7 14 [literal_node ''text'' 7 14 ''Read on'']"
  have 1: "parseNode plain_text empty_callout [] True = Inl TypeError"
    using parseNode_directive_requires_child[of empty_callout plain_text "[]" True]
    by (simp add: empty_callout_def tree_defs)
  have 2: "parseNode plain_text title_only_callout [] True = Inl TypeError"
    using parseNode_directive_requires_child
      [of title_only_callout plain_text "[]" True ?lab]
    by (simp add: title_only_callout_def tree_defs)
  have cd: "ntype plain_callout = ''containerDirective''"
    by (simp add: plain_callout_def tree_defs)
  have ch: "children plain_callout = Some [?kid]"
    by (simp add: plain_callout_def tree_defs)
  have pp: "list_all plain_paragraph [?kid]"
    by (simp add: plain_paragraph_def tree_defs)
  have nl: "\<not> directiveLabel ?kid" by (simp add: tree_defs)
  have ps: "position ?kid = Some (7, 14)" by (simp add: tree_defs)
  have 3: "parseNode plain_text plain_callout [] True
       = Inr (plain_callout,
              [\<lparr>ctype = Undefined, ctext = Str ''Read on'', start = 7, end' = 14,
                cnotes = Str (''content for the '' @ [CHR 0x22] @ ''tip'' @ [CHR 0x22] @ '' callout'')\<rparr>])"
    using parseNode_directive_requires_child
      [of plain_callout plain_text "[]" True, THEN mp, OF cd,
       THEN conjunct2, THEN conjunct2, THEN conjunct2, THEN conjunct2, THEN conjunct2,
       rule_format, of "[?kid]" 7 14 7 14]
      ch pp nl ps
    by (simp add: plain_callout_def tree_defs chomp_def)
  have pc: "parseChildren plain_text plain_callout [] = Inr (plain_callout, [], Str ''Read on'')"
    by (simp add: plain_callout_def tree_defs walk_simps chomp_def)
  have 4: "parseNode plain_text plain_callout [] False
       = Inr (plain_callout,
              [\<lparr>ctype = Undefined, ctext = Str ''Read on'', start = 7, end' = 14,
                cnotes = Str (''content for the '' @ [CHR 0x22] @ ''tip'' @ [CHR 0x22] @ '' callout'')\<rparr>])"
    using parseNode_directive_requires_child
      [of plain_callout plain_text "[]" False, THEN mp, OF cd,
       THEN conjunct2, THEN conjunct2, THEN conjunct2, THEN conjunct1,
       rule_format, of ?kid "[]" plain_callout "[]" "Str ''Read on''"]
      ch nl pc
    by (simp add: plain_callout_def tree_defs)
  have cl: "ntype labelled_callout = ''containerDirective''"
    by (simp add: labelled_callout_def tree_defs)
  have kl: "children labelled_callout = Some (?lab # [?par])"
    by (simp add: labelled_callout_def tree_defs)
  have lb: "directiveLabel ?lab" by (simp add: tree_defs)
  have lc: "directive_label_change labelled_callout ?lab
              = Inr \<lparr>ctype = Str ''containerDirectiveLabel'', ctext = Str ''See also'',
                     start = 7, end' = 15,
                     cnotes = Str (''title for the '' @ [CHR 0x22] @ ''tip'' @ [CHR 0x22]
                                   @ '' callout'')\<rparr>"
    by (simp add: directive_label_change_def labelled_callout_def tree_defs)
  have 5: "parseNode plain_text labelled_callout [] False
       = Inr (directive_node ''tip'' 0 28 [?par],
              [\<lparr>ctype = Str ''containerDirectiveLabel'', ctext = Str ''See also'',
                start = 7, end' = 15,
                cnotes = Str (''title for the '' @ [CHR 0x22] @ ''tip'' @ [CHR 0x22] @ '' callout'')\<rparr>,
               \<lparr>ctype = Undefined, ctext = Str ''Read on'', start = 17, end' = 24,
                cnotes = Str (''content for the '' @ [CHR 0x22] @ ''tip'' @ [CHR 0x22] @ '' callout'')\<rparr>])"
    using parseNode_directive_requires_child
      [of labelled_callout plain_text "[]" False, THEN mp, OF cl,
       THEN conjunct2, THEN conjunct2, THEN conjunct2, THEN conjunct2, THEN conjunct1,
       rule_format, of ?lab "[?par]" _ "directive_node ''tip'' 0 28 [?par]"]
      kl lb lc labelled_callout_children
    by (simp add: labelled_callout_def tree_defs)
  from 1 2 3 4 5 show ?thesis by simp
qed

end
